theory Spec2Isabelle
  imports Main
begin

section \<open>JavaScript values and strings\<close>

text \<open>
  A JavaScript string is a sequence of UTF-16 code units; a code unit is modelled as a
  natural number and a string as the list of its code units. \<open>js\<close> turns an Isabelle
  string literal into such a list, so \<open>js ''a.42''\<close> is the string \<^verbatim>\<open>'a.42'\<close>.
  A buffer is the list of its bytes.

  The values that reach the script from the CSV parser are strings, or \<^verbatim>\<open>undefined\<close>
  for a column the file does not have; \<^verbatim>\<open>null\<close> is kept as the other absent value.
  A JavaScript number produced by \<^verbatim>\<open>parseInt\<close> is \<^verbatim>\<open>NaN\<close>, an infinity, or a
  double with an integer value, kept as that integer (the two zeros are not told apart).
\<close>

type_synonym jsstring = "nat list"

type_synonym bytes = "nat list"

definition js :: "string \<Rightarrow> jsstring" where
  "js s = map of_char s"

datatype jsval = Undefined | Null | Str jsstring

datatype jsnum = NaN | Num int | PosInfinity | NegInfinity

text \<open>
  What the storage server answers when it refuses a statement, and the exceptions of the
  script: the TypeError of a property access on an absent value, the error event of the
  CSV stream, and a rejected query.
\<close>

datatype dberror = SyntaxError | RowRejected | CardinalityViolation | InFailedTransaction

datatype jserror = TypeError | StreamError | DatabaseError dberror

text \<open>\<^verbatim>\<open>!v\<close> is true for \<^verbatim>\<open>undefined\<close>, \<^verbatim>\<open>null\<close> and the empty string.\<close>

fun falsy :: "jsval \<Rightarrow> bool" where
  "falsy Undefined = True"
| "falsy Null = True"
| "falsy (Str s) = (s = [])"

text \<open>
  \<^verbatim>\<open>v.toString()\<close>: a property access on \<^verbatim>\<open>undefined\<close> or \<^verbatim>\<open>null\<close> throws a
  TypeError; on a string it returns the string.
\<close>

fun toString_method :: "jsval \<Rightarrow> jserror + jsstring" where
  "toString_method Undefined = Inl TypeError"
| "toString_method Null = Inl TypeError"
| "toString_method (Str s) = Inr s"

text \<open>
  The abstract operation ToString, which \<^verbatim>\<open>parseInt\<close> applies to its argument:
  it never throws on these values.
\<close>

fun ToString :: "jsval \<Rightarrow> jsstring" where
  "ToString Undefined = js ''undefined''"
| "ToString Null = js ''null''"
| "ToString (Str s) = s"

text \<open>\<^verbatim>\<open>a || b\<close>\<close>

definition js_or :: "jsval \<Rightarrow> jsval \<Rightarrow> jsval" where
  "js_or a b = (if falsy a then b else a)"

text \<open>
  White space and line terminators of ECMAScript, the code units that
  \<^verbatim>\<open>String.prototype.trim\<close> strips and \<^verbatim>\<open>parseInt\<close> skips.
\<close>

definition isWhiteSpace :: "nat \<Rightarrow> bool" where
  "isWhiteSpace c \<longleftrightarrow>
     c = 0x09 \<or> c = 0x0A \<or> c = 0x0B \<or> c = 0x0C \<or> c = 0x0D \<or> c = 0x20 \<or> c = 0xA0
     \<or> c = 0x1680 \<or> (0x2000 \<le> c \<and> c \<le> 0x200A) \<or> c = 0x2028 \<or> c = 0x2029
     \<or> c = 0x202F \<or> c = 0x205F \<or> c = 0x3000 \<or> c = 0xFEFF"

definition trim :: "jsstring \<Rightarrow> jsstring" where
  "trim s = rev (dropWhile isWhiteSpace (rev (dropWhile isWhiteSpace s)))"

text \<open>
  \<^verbatim>\<open>s.split(d)\<close> for a separator of one code unit: the pieces between the
  occurrences of \<open>d\<close>, in order; the empty string gives one empty piece.
\<close>

fun js_split :: "nat \<Rightarrow> jsstring \<Rightarrow> jsstring list" where
  "js_split d [] = [[]]"
| "js_split d (c # cs) =
     (if c = d then [] # js_split d cs
      else (case js_split d cs of
              p # ps \<Rightarrow> (c # p) # ps
            | [] \<Rightarrow> [[c]]))"

fun startsWith :: "jsstring \<Rightarrow> nat \<Rightarrow> bool" where
  "startsWith [] p = False"
| "startsWith (c # cs) p = (c = p)"

section \<open>Buffers: hexadecimal and UTF-8\<close>

definition hexVal :: "nat \<Rightarrow> nat option" where
  "hexVal c =
     (if 48 \<le> c \<and> c \<le> 57 then Some (c - 48)
      else if 97 \<le> c \<and> c \<le> 102 then Some (c - 87)
      else if 65 \<le> c \<and> c \<le> 70 then Some (c - 55)
      else None)"

text \<open>
  \<^verbatim>\<open>Buffer.from(s, 'hex')\<close> reads the string two characters at a time and stops,
  without an error, at the first pair that is not two hexadecimal digits; a single
  trailing character is dropped. Node looks at the low byte of each code unit only.
\<close>

fun hexDecode :: "jsstring \<Rightarrow> bytes" where
  "hexDecode (a # b # rest) =
     (case hexVal (a mod 256) of
        None \<Rightarrow> []
      | Some x \<Rightarrow>
          (case hexVal (b mod 256) of
             None \<Rightarrow> []
           | Some y \<Rightarrow> (x * 16 + y) # hexDecode rest))"
| "hexDecode [a] = []"
| "hexDecode [] = []"

definition Buffer_from_hex :: "jsstring \<Rightarrow> jserror + bytes" where
  "Buffer_from_hex s = Inr (hexDecode s)"

definition isCont :: "nat \<Rightarrow> bool" where
  "isCont b \<longleftrightarrow> 0x80 \<le> b \<and> b \<le> 0xBF"

text \<open>The range of the second byte after a three-byte or four-byte lead byte.\<close>

definition second3 :: "nat \<Rightarrow> nat \<Rightarrow> bool" where
  "second3 b0 b1 \<longleftrightarrow>
     (if b0 = 0xE0 then 0xA0 \<le> b1 \<and> b1 \<le> 0xBF
      else if b0 = 0xED then 0x80 \<le> b1 \<and> b1 \<le> 0x9F
      else isCont b1)"

definition second4 :: "nat \<Rightarrow> nat \<Rightarrow> bool" where
  "second4 b0 b1 \<longleftrightarrow>
     (if b0 = 0xF0 then 0x90 \<le> b1 \<and> b1 \<le> 0xBF
      else if b0 = 0xF4 then 0x80 \<le> b1 \<and> b1 \<le> 0x8F
      else isCont b1)"

text \<open>
  The UTF-8 decoder behind \<^verbatim>\<open>buffer.toString('utf8')\<close>, from bytes to code
  points. It never fails: each ill-formed part is replaced by U+FFFD and decoding resumes
  at the byte that did not fit. \<open>utf8Step b0 bs\<close> is one step, at the byte \<open>b0\<close>
  followed by \<open>bs\<close>: the code point it gives and how many bytes of \<open>bs\<close> it takes.
\<close>

definition utf8Step :: "nat \<Rightarrow> bytes \<Rightarrow> nat \<times> nat" where
  "utf8Step b0 bs =
     (if b0 < 0x80 then (b0, 0)
      else if 0xC2 \<le> b0 \<and> b0 \<le> 0xDF then
        (case bs of
           [] \<Rightarrow> (0xFFFD, 0)
         | b1 # r1 \<Rightarrow>
             if isCont b1 then ((b0 - 0xC0) * 64 + (b1 - 0x80), 1)
             else (0xFFFD, 0))
      else if 0xE0 \<le> b0 \<and> b0 \<le> 0xEF then
        (case bs of
           [] \<Rightarrow> (0xFFFD, 0)
         | b1 # r1 \<Rightarrow>
             if second3 b0 b1 then
               (case r1 of
                  [] \<Rightarrow> (0xFFFD, 1)
                | b2 # r2 \<Rightarrow>
                    if isCont b2
                    then ((b0 - 0xE0) * 4096 + (b1 - 0x80) * 64 + (b2 - 0x80), 2)
                    else (0xFFFD, 1))
             else (0xFFFD, 0))
      else if 0xF0 \<le> b0 \<and> b0 \<le> 0xF4 then
        (case bs of
           [] \<Rightarrow> (0xFFFD, 0)
         | b1 # r1 \<Rightarrow>
             if second4 b0 b1 then
               (case r1 of
                  [] \<Rightarrow> (0xFFFD, 1)
                | b2 # r2 \<Rightarrow>
                    if isCont b2 then
                      (case r2 of
                         [] \<Rightarrow> (0xFFFD, 2)
                       | b3 # r3 \<Rightarrow>
                           if isCont b3
                           then ((b0 - 0xF0) * 262144 + (b1 - 0x80) * 4096
                                   + (b2 - 0x80) * 64 + (b3 - 0x80), 3)
                           else (0xFFFD, 2))
                    else (0xFFFD, 1))
             else (0xFFFD, 0))
      else (0xFFFD, 0))"

fun utf8Decode :: "bytes \<Rightarrow> nat list" where
  "utf8Decode [] = []"
| "utf8Decode (b0 # bs) =
     (case utf8Step b0 bs of (cp, n) \<Rightarrow> cp # utf8Decode (drop n bs))"

text \<open>A code point as UTF-16: one code unit, or a surrogate pair beyond U+FFFF.\<close>

definition utf16 :: "nat \<Rightarrow> jsstring" where
  "utf16 cp =
     (if cp < 0x10000 then [cp]
      else [0xD800 + (cp - 0x10000) div 1024, 0xDC00 + (cp - 0x10000) mod 1024])"

definition toString_utf8 :: "bytes \<Rightarrow> jsstring" where
  "toString_utf8 buffer = concat (map utf16 (utf8Decode buffer))"

section \<open>parseInt\<close>

text \<open>The value of a code unit as a digit in radix \<open>R\<close>, if it is one.\<close>

definition digitVal :: "nat \<Rightarrow> nat \<Rightarrow> nat option" where
  "digitVal R c =
     (let v = (if 48 \<le> c \<and> c \<le> 57 then Some (c - 48)
               else if 97 \<le> c \<and> c \<le> 122 then Some (c - 87)
               else if 65 \<le> c \<and> c \<le> 90 then Some (c - 55)
               else None)
      in case v of
           None \<Rightarrow> None
         | Some d \<Rightarrow> if d < R then Some d else None)"

definition isDigitIn :: "nat \<Rightarrow> nat \<Rightarrow> bool" where
  "isDigitIn R c \<longleftrightarrow> digitVal R c \<noteq> None"

definition digitsValue :: "nat \<Rightarrow> jsstring \<Rightarrow> nat" where
  "digitsValue R Z = foldl (\<lambda>acc c. acc * R + (case digitVal R c of Some d \<Rightarrow> d | None \<Rightarrow> 0)) 0 Z"

text \<open>
  The Number for a mathematical integer: the integer itself below \<open>2^53\<close>, and beyond
  that the nearest double, which keeps 53 significant bits (a tie goes to the even
  neighbour), or an infinity from \<open>2^1024\<close> on.
\<close>

fun bitLength :: "nat \<Rightarrow> nat" where
  "bitLength n = (if n = 0 then 0 else Suc (bitLength (n div 2)))"

declare bitLength.simps [simp del]

definition roundToDouble :: "nat \<Rightarrow> nat" where
  "roundToDouble a =
     (let k = bitLength a - 53;
          q = a div 2 ^ k;
          r = a mod 2 ^ k
      in (if 2 ^ k < 2 * r \<or> (2 * r = 2 ^ k \<and> odd q) then q + 1 else q) * 2 ^ k)"

definition toNumber :: "int \<Rightarrow> jsnum" where
  "toNumber n =
     (if \<bar>n\<bar> < 9007199254740992 then Num n
      else (let m = roundToDouble (nat \<bar>n\<bar>)
            in if 2 ^ 1024 \<le> m then (if n < 0 then NegInfinity else PosInfinity)
               else Num (if n < 0 then - int m else int m)))"

text \<open>
  \<^verbatim>\<open>parseInt(string)\<close> with no radix, on a string: skip leading white space, take
  an optional sign, switch to radix 16 after a \<^verbatim>\<open>0x\<close> or \<^verbatim>\<open>0X\<close> prefix, and read
  the longest prefix of digits; no digit gives \<^verbatim>\<open>NaN\<close>. What follows the digits is
  ignored. (Beyond 20 significant decimal digits the language lets an engine round less
  exactly; the model rounds correctly, as V8 does.)
\<close>

definition stripSign :: "jsstring \<Rightarrow> int \<times> jsstring" where
  "stripSign S =
     (case S of
        [] \<Rightarrow> (1, S)
      | c # rest \<Rightarrow> if c = 45 then (- 1, rest) else if c = 43 then (1, rest) else (1, S))"

definition stripPrefix :: "jsstring \<Rightarrow> nat \<times> jsstring" where
  "stripPrefix S =
     (case S of
        a # b # rest \<Rightarrow> if a = 48 \<and> (b = 120 \<or> b = 88) then (16, rest) else (10, S)
      | _ \<Rightarrow> (10, S))"

definition parseInt :: "jsstring \<Rightarrow> jsnum" where
  "parseInt inputString =
     (let (sign, S) = stripSign (dropWhile isWhiteSpace inputString);
          (R, S') = stripPrefix S;
          Z = takeWhile (isDigitIn R) S'
      in if Z = [] then NaN else toNumber (sign * int (digitsValue R Z)))"

definition isNaN :: "jsnum \<Rightarrow> bool" where
  "isNaN x \<longleftrightarrow> x = NaN"

section \<open>The Extractor\<close>

text \<open>
  What the function writes to the console, in order: the note about a skipped
  \<^verbatim>\<open>+\<close> token, the note about an extracted identifier (identifier, token, decoded
  text), and the warning of the \<^verbatim>\<open>catch\<close> block.
\<close>

datatype console_line =
    SkippingPlus jsstring
  | Extracted jsnum jsstring jsstring
  | ErrorDecoding jsstring jserror

type_synonym extractor_state = "jsnum list \<times> console_line list"

text \<open>The delimiters \<^verbatim>\<open>[',', ';', '|', '\n', '\t']\<close>.\<close>

definition delimiters :: "nat list" where
  "delimiters = [44, 59, 124, 10, 9]"

text \<open>
  The cascading split: for each delimiter in turn, every value is split on it and the
  pieces are collected in order.
\<close>

definition splitValues :: "nat list \<Rightarrow> jsstring list \<Rightarrow> jsstring list" where
  "splitValues ds values = foldl (\<lambda>vs d. concat (map (js_split d) vs)) values ds"

text \<open>The body of the \<^verbatim>\<open>try\<close> block, for one trimmed token.\<close>

definition tryDecode :: "jsstring \<Rightarrow> extractor_state \<Rightarrow> jserror + extractor_state" where
  "tryDecode trimmedValue st =
     (case Buffer_from_hex trimmedValue of
        Inl e \<Rightarrow> Inl e
      | Inr buffer \<Rightarrow>
          (let decodedString = toString_utf8 buffer;
               parts = js_split 46 decodedString
           in if length parts > 1 then
                (let deviceKitId = parseInt (parts ! 1)
                 in if \<not> isNaN deviceKitId
                    then Inr (fst st @ [deviceKitId],
                              snd st @ [Extracted deviceKitId trimmedValue decodedString])
                    else Inr st)
              else Inr st))"

text \<open>One round of the loop over the tokens.\<close>

definition processValue :: "extractor_state \<Rightarrow> jsstring \<Rightarrow> extractor_state" where
  "processValue st singleValue =
     (let trimmedValue = trim singleValue
      in if trimmedValue = [] then st
         else if startsWith trimmedValue 43
         then (fst st, snd st @ [SkippingPlus trimmedValue])
         else (case tryDecode trimmedValue st of
                 Inr st' \<Rightarrow> st'
               | Inl e \<Rightarrow> (fst st, snd st @ [ErrorDecoding trimmedValue e])))"

text \<open>
  \<^verbatim>\<open>extractDeviceKitIds(featureValue)\<close>: the returned array and the console output,
  or the exception that leaves the function.
\<close>

definition extractDeviceKitIds :: "jsval \<Rightarrow> jserror + extractor_state" where
  "extractDeviceKitIds featureValue =
     (if falsy featureValue \<or> featureValue = Str [] then Inr ([], [])
      else (case toString_method featureValue of
              Inl e \<Rightarrow> Inl e
            | Inr s \<Rightarrow> Inr (foldl processValue ([], []) (splitValues delimiters [trim s]))))"

text \<open>
  What one token contributes when the loop meets it with nothing collected yet, and the
  value the \<^verbatim>\<open>try\<close> block computes for a token (\<open>NaN\<close> when it pushes nothing).
\<close>

definition tokenIds :: "jsstring \<Rightarrow> jsnum list" where
  "tokenIds v = fst (processValue ([], []) v)"

definition tokenLines :: "jsstring \<Rightarrow> console_line list" where
  "tokenLines v = snd (processValue ([], []) v)"

definition decodeToken :: "jsstring \<Rightarrow> jsnum" where
  "decodeToken t =
     (let parts = js_split 46 (toString_utf8 (hexDecode t))
      in if length parts > 1 then parseInt (parts ! 1) else NaN)"

text \<open>
  A valid hex-encoded token: hexadecimal digits only, decoding to a text whose second
  \<^verbatim>\<open>.\<close>-segment parses as an integer. A field of several tokens is a first token
  followed by (delimiter, token) pairs.
\<close>

definition validToken :: "jsstring \<Rightarrow> bool" where
  "validToken t \<longleftrightarrow> (\<forall>c \<in> set t. hexVal c \<noteq> None) \<and> decodeToken t \<noteq> NaN"

definition joinTokens :: "jsstring \<Rightarrow> (nat \<times> jsstring) list \<Rightarrow> jsstring" where
  "joinTokens t rest = t @ concat (map (\<lambda>(d, t'). d # t') rest)"

text \<open>
  The hexadecimal encoding of a list of bytes, in lower case: the tokens the Extractor is
  made for are encodings of a text such as \<^verbatim>\<open>Hello.442\<close>.
\<close>

definition hexDigit :: "nat \<Rightarrow> nat" where
  "hexDigit v = (if v < 10 then 48 + v else 87 + v)"

definition hexEncode :: "bytes \<Rightarrow> jsstring" where
  "hexEncode bs = concat (map (\<lambda>b. [hexDigit (b div 16), hexDigit (b mod 16)]) bs)"

text \<open>Splitting on every code unit that satisfies a predicate (used in the proofs).\<close>

fun splitBy :: "(nat \<Rightarrow> bool) \<Rightarrow> jsstring \<Rightarrow> jsstring list" where
  "splitBy P [] = [[]]"
| "splitBy P (c # cs) =
     (if P c then [] # splitBy P cs
      else (case splitBy P cs of
              p # ps \<Rightarrow> (c # p) # ps
            | [] \<Rightarrow> [[c]]))"

section \<open>The Loader: reading the rows\<close>

text \<open>
  A row of the CSV parser: the columns the script reads, each a string, or
  \<^verbatim>\<open>undefined\<close> when the file has no such column. The stream delivers rows
  (\<^verbatim>\<open>data\<close>) or fails (\<^verbatim>\<open>error\<close>), and then ends.
\<close>

record csv_row =
  row_account_id :: jsval
  row_emails :: jsval
  row_phone_numbers :: jsval
  row_extensions :: jsval

datatype stream_event = Data csv_row | Error

record processed_row =
  account_id :: jsnum
  emails :: jsval
  phone_numbers :: jsval
  extensions :: jsval
  created_by :: jsval

text \<open>The \<^verbatim>\<open>data\<close> handler.\<close>

definition processRow :: "csv_row \<Rightarrow> processed_row" where
  "processRow row =
     \<lparr> account_id = parseInt (ToString (row_account_id row)),
       emails = js_or (row_emails row) (Str []),
       phone_numbers = js_or (row_phone_numbers row) (Str []),
       extensions = js_or (row_extensions row) (Str []),
       created_by = Str (js ''By system'') \<rparr>"

text \<open>
  \<^verbatim>\<open>loadCsvData\<close>: the promise resolves with the records pushed so far when the
  stream ends, and is rejected by an \<^verbatim>\<open>error\<close> event.
\<close>

fun readStream :: "processed_row list \<Rightarrow> stream_event list \<Rightarrow> jserror + processed_row list" where
  "readStream records [] = Inr records"
| "readStream records (Data row # evs) = readStream (records @ [processRow row]) evs"
| "readStream records (Error # evs) = Inl StreamError"

definition loadCsvData :: "stream_event list \<Rightarrow> jserror + processed_row list" where
  "loadCsvData evs = readStream [] evs"

section \<open>The storage\<close>

text \<open>
  The target table is a list of rows. The table's declaration is not part of the
  repository, so what it accepts is a parameter: \<open>accepts\<close> says which parameter rows
  the table takes (column types and constraints), and \<open>updated_at_default\<close> is the value
  of the \<^verbatim>\<open>updated_at\<close> column of a freshly inserted row, at a given time.

  The connection follows PostgreSQL's transaction blocks: \<^verbatim>\<open>BEGIN\<close> opens a block;
  a statement that fails inside the block has no effect and puts the block into the failed
  state, in which every later statement is refused; \<^verbatim>\<open>COMMIT\<close> makes the changes of
  a healthy block durable and ends a failed block by rolling it back, without an error;
  \<^verbatim>\<open>ROLLBACK\<close> discards the block. \<^verbatim>\<open>CURRENT_TIMESTAMP\<close> is the start time of
  the transaction, the argument \<open>now\<close> below. Failures of the connection itself are not
  modelled.
\<close>

record target_row = processed_row +
  updated_at :: "nat option"

type_synonym table = "target_row list"

record table_schema =
  accepts :: "processed_row \<Rightarrow> bool"
  updated_at_default :: "nat \<Rightarrow> nat option"

datatype txn_status = Idle | InTransaction | Failed

record connection =
  committed :: table
  working :: table
  status :: txn_status

definition insertedRow :: "table_schema \<Rightarrow> nat \<Rightarrow> processed_row \<Rightarrow> target_row" where
  "insertedRow sch now r =
     \<lparr> account_id = account_id r, emails = emails r, phone_numbers = phone_numbers r,
       extensions = extensions r, created_by = created_by r,
       updated_at = updated_at_default sch now \<rparr>"

text \<open>The \<^verbatim>\<open>DO UPDATE SET\<close> list, \<open>r\<close> being the \<^verbatim>\<open>EXCLUDED\<close> row.\<close>

definition updatedRow :: "nat \<Rightarrow> processed_row \<Rightarrow> target_row \<Rightarrow> target_row" where
  "updatedRow now r x =
     x \<lparr> emails := emails r, phone_numbers := phone_numbers r, extensions := extensions r,
         created_by := created_by r, updated_at := Some now \<rparr>"

text \<open>
  \<^verbatim>\<open>INSERT ... ON CONFLICT (account_id) DO UPDATE SET ...\<close> for one row: the row
  with the same account identifier is updated, or else the row is added.
\<close>

fun upsert :: "table_schema \<Rightarrow> nat \<Rightarrow> processed_row \<Rightarrow> table \<Rightarrow> table" where
  "upsert sch now r [] = [insertedRow sch now r]"
| "upsert sch now r (x # xs) =
     (if account_id x = account_id r then updatedRow now r x # xs
      else x # upsert sch now r xs)"

text \<open>
  Why the server refuses an insert statement with these rows: an empty
  \<^verbatim>\<open>VALUES\<close> list is a syntax error, a row the table does not accept fails, and one
  statement cannot touch the same account identifier twice.
\<close>

definition insertError :: "table_schema \<Rightarrow> processed_row list \<Rightarrow> dberror option" where
  "insertError sch rows =
     (if rows = [] then Some SyntaxError
      else if \<exists>r \<in> set rows. \<not> accepts sch r then Some RowRejected
      else if \<not> distinct (map account_id rows) then Some CardinalityViolation
      else None)"

definition query_begin :: "connection \<Rightarrow> connection" where
  "query_begin c = c \<lparr> working := committed c, status := InTransaction \<rparr>"

definition query_commit :: "connection \<Rightarrow> connection" where
  "query_commit c =
     (case status c of
        InTransaction \<Rightarrow> c \<lparr> committed := working c, status := Idle \<rparr>
      | Failed \<Rightarrow> c \<lparr> working := committed c, status := Idle \<rparr>
      | Idle \<Rightarrow> c)"

definition query_rollback :: "connection \<Rightarrow> connection" where
  "query_rollback c = c \<lparr> working := committed c, status := Idle \<rparr>"

text \<open>
  \<^verbatim>\<open>client.query(insert, params)\<close>: the error the promise is rejected with, if any,
  and the connection afterwards. Outside a block each statement is its own transaction.
\<close>

definition query_insert ::
  "table_schema \<Rightarrow> nat \<Rightarrow> processed_row list \<Rightarrow> connection \<Rightarrow> dberror option \<times> connection" where
  "query_insert sch now rows c =
     (case status c of
        Failed \<Rightarrow> (Some InFailedTransaction, c)
      | InTransaction \<Rightarrow>
          (case insertError sch rows of
             Some e \<Rightarrow> (Some e, c \<lparr> status := Failed \<rparr>)
           | None \<Rightarrow> (None, c \<lparr> working := foldl (\<lambda>t r. upsert sch now r t) (working c) rows \<rparr>))
      | Idle \<Rightarrow>
          (case insertError sch rows of
             Some e \<Rightarrow> (Some e, c)
           | None \<Rightarrow>
               (None, c \<lparr> committed := foldl (\<lambda>t r. upsert sch now r t) (committed c) rows \<rparr>)))"

section \<open>The Loader: writing the records\<close>

datatype loader_line =
    ErrorInserting jsnum dberror
  | SuccessfullyProcessed nat nat
  | ErrorDuringBatchInsert dberror
  | SuccessfullyBatchInserted nat

record insert_state =
  client :: connection
  successCount :: nat
  errorCount :: nat
  console :: "loader_line list"

text \<open>One round of the loop of \<^verbatim>\<open>insertDataToDatabase\<close>, with its inner try block.\<close>

definition insertRecord :: "table_schema \<Rightarrow> nat \<Rightarrow> insert_state \<Rightarrow> processed_row \<Rightarrow> insert_state" where
  "insertRecord sch now st record =
     (case query_insert sch now [record] (client st) of
        (None, c) \<Rightarrow> st \<lparr> client := c, successCount := successCount st + 1 \<rparr>
      | (Some e, c) \<Rightarrow>
          st \<lparr> client := c, errorCount := errorCount st + 1,
               console := console st @ [ErrorInserting (account_id record) e] \<rparr>)"

text \<open>
  \<^verbatim>\<open>insertDataToDatabase(records)\<close> on a connection: \<^verbatim>\<open>BEGIN\<close>, the loop,
  \<^verbatim>\<open>COMMIT\<close>, the summary line. The result is the state after the function returned;
  no query of this function rejects outside the inner try block, so the outer
  \<^verbatim>\<open>catch\<close> is never entered.
\<close>

definition insertDataToDatabase ::
  "table_schema \<Rightarrow> nat \<Rightarrow> processed_row list \<Rightarrow> connection \<Rightarrow> insert_state" where
  "insertDataToDatabase sch now records c =
     (let st = foldl (insertRecord sch now)
                 \<lparr> client = query_begin c, successCount = 0, errorCount = 0, console = [] \<rparr>
                 records
      in st \<lparr> client := query_commit (client st),
              console := console st @ [SuccessfullyProcessed (successCount st) (errorCount st)] \<rparr>)"

text \<open>
  \<^verbatim>\<open>batchInsertDataToDatabase(records)\<close>: one statement with one \<^verbatim>\<open>VALUES\<close>
  tuple per record, the parameters being the fields of the records in order. The result
  is the exception thrown, if any, the connection afterwards and the console output.
\<close>

definition batchInsertDataToDatabase ::
  "table_schema \<Rightarrow> nat \<Rightarrow> processed_row list \<Rightarrow> connection
     \<Rightarrow> jserror option \<times> connection \<times> loader_line list" where
  "batchInsertDataToDatabase sch now records c =
     (case query_insert sch now records (query_begin c) of
        (None, c') \<Rightarrow> (None, query_commit c', [SuccessfullyBatchInserted (length records)])
      | (Some e, c') \<Rightarrow>
          (Some (DatabaseError e), query_rollback c', [ErrorDuringBatchInsert e]))"




text \<open>
  A table for the examples: \<^verbatim>\<open>account_id\<close> is an integer column, which refuses
  \<^verbatim>\<open>NaN\<close> and the infinities, the other columns take any text, and
  \<^verbatim>\<open>updated_at\<close> has no default.
\<close>

definition integerKeyTable :: "table_schema" where
  "integerKeyTable =
     \<lparr> accepts = (\<lambda>r. case account_id r of Num n \<Rightarrow> True | _ \<Rightarrow> False),
       updated_at_default = (\<lambda>now. None) \<rparr>"

section \<open>The SQL variant\<close>

text \<open>
  The \<^verbatim>\<open>CASE\<close> expression of \<^verbatim>\<open>load_accounts.sql\<close> that computes the
  \<^verbatim>\<open>extensions\<close> column, with the PostgreSQL functions it calls. A text is the
  list of its characters and, once decoded, the list of its UTF-8 bytes (the database
  encoding is UTF-8). An error anywhere aborts the statement.

  \<^verbatim>\<open>DECODE(s, 'hex')\<close> skips blanks between pairs of digits and fails on any other
  character and on a single last digit. \<^verbatim>\<open>CONVERT_FROM(b, 'UTF8')\<close> fails on bytes
  that are not well-formed UTF-8 or contain a zero byte. \<^verbatim>\<open>SPLIT_PART(t, '.', n)\<close> is
  the \<open>n\<close>-th field, empty when there are fewer. The cast to \<^verbatim>\<open>INTEGER\<close> takes
  blanks, an optional sign, decimal digits and blanks, within 32 bits (the other integer
  notations of later PostgreSQL versions are not modelled, so a text in one of them counts
  as an error here).
\<close>

datatype pgerror = InvalidHexDigit | OddHexDigits | InvalidByteSequence
  | InvalidIntegerSyntax | IntegerOutOfRange

fun pg_hex_decode :: "nat list \<Rightarrow> pgerror + bytes" where
  "pg_hex_decode [] = Inr []"
| "pg_hex_decode (c # cs) =
     (if c = 32 \<or> c = 10 \<or> c = 9 \<or> c = 13 then pg_hex_decode cs
      else (case hexVal c of
              None \<Rightarrow> Inl InvalidHexDigit
            | Some v1 \<Rightarrow>
                (case cs of
                   [] \<Rightarrow> Inl OddHexDigits
                 | c2 # rest \<Rightarrow>
                     (case hexVal c2 of
                        None \<Rightarrow> Inl InvalidHexDigit
                      | Some v2 \<Rightarrow>
                          (case pg_hex_decode rest of
                             Inl e \<Rightarrow> Inl e
                           | Inr bs \<Rightarrow> Inr ((v1 * 16 + v2) # bs))))))"

fun pg_utf8_valid :: "bytes \<Rightarrow> bool" where
  "pg_utf8_valid [] = True"
| "pg_utf8_valid (b0 # bs) =
     (if b0 = 0 then False
      else if b0 < 0x80 then pg_utf8_valid bs
      else if 0xC2 \<le> b0 \<and> b0 \<le> 0xDF then
        (case bs of
           b1 # r1 \<Rightarrow> isCont b1 \<and> pg_utf8_valid r1
         | _ \<Rightarrow> False)
      else if 0xE0 \<le> b0 \<and> b0 \<le> 0xEF then
        (case bs of
           b1 # b2 # r2 \<Rightarrow> second3 b0 b1 \<and> isCont b2 \<and> pg_utf8_valid r2
         | _ \<Rightarrow> False)
      else if 0xF0 \<le> b0 \<and> b0 \<le> 0xF4 then
        (case bs of
           b1 # b2 # b3 # r3 \<Rightarrow> second4 b0 b1 \<and> isCont b2 \<and> isCont b3 \<and> pg_utf8_valid r3
         | _ \<Rightarrow> False)
      else False)"

definition pg_convert_from_utf8 :: "bytes \<Rightarrow> pgerror + bytes" where
  "pg_convert_from_utf8 b = (if pg_utf8_valid b then Inr b else Inl InvalidByteSequence)"

fun pg_split_part :: "bytes \<Rightarrow> nat \<Rightarrow> nat \<Rightarrow> bytes" where
  "pg_split_part s d n =
     (if n \<le> 1 then takeWhile (\<lambda>c. c \<noteq> d) s
      else (case dropWhile (\<lambda>c. c \<noteq> d) s of
              [] \<Rightarrow> []
            | c # rest \<Rightarrow> pg_split_part rest d (n - 1)))"

declare pg_split_part.simps [simp del]

definition pg_isspace :: "nat \<Rightarrow> bool" where
  "pg_isspace c \<longleftrightarrow> c = 32 \<or> (9 \<le> c \<and> c \<le> 13)"

definition pg_isdigit :: "nat \<Rightarrow> bool" where
  "pg_isdigit c \<longleftrightarrow> 48 \<le> c \<and> c \<le> 57"

definition pg_int4in :: "bytes \<Rightarrow> pgerror + int" where
  "pg_int4in s =
     (let s1 = dropWhile pg_isspace s;
          (neg, s2) = (case s1 of
                         [] \<Rightarrow> (False, s1)
                       | c # rest \<Rightarrow>
                           if c = 45 then (True, rest)
                           else if c = 43 then (False, rest) else (False, s1));
          ds = takeWhile pg_isdigit s2;
          v = (if neg then - 1 else 1) * int (foldl (\<lambda>acc c. acc * 10 + (c - 48)) 0 ds)
      in if ds = [] then Inl InvalidIntegerSyntax
         else if v < - 2147483648 \<or> 2147483647 < v then Inl IntegerOutOfRange
         else if dropWhile pg_isspace (dropWhile pg_isdigit s2) \<noteq> [] then Inl InvalidIntegerSyntax
         else Inr v)"

text \<open>
  The value of the \<^verbatim>\<open>extensions\<close> column for a \<^verbatim>\<open>feature_value\<close>, which may be
  \<^verbatim>\<open>NULL\<close>: \<^verbatim>\<open>NULL\<close> or an integer, or the error that aborts the statement.
\<close>

definition sql_extensions :: "nat list option \<Rightarrow> pgerror + int option" where
  "sql_extensions feature_value =
     (case feature_value of
        None \<Rightarrow> Inr None
      | Some s \<Rightarrow>
          if s = [] \<or> startsWith s 43 then Inr None
          else (case pg_hex_decode s of
                  Inl e \<Rightarrow> Inl e
                | Inr b \<Rightarrow>
                    (case pg_convert_from_utf8 b of
                       Inl e \<Rightarrow> Inl e
                     | Inr t \<Rightarrow>
                         (case pg_int4in (pg_split_part t 46 2) of
                            Inl e \<Rightarrow> Inl e
                          | Inr n \<Rightarrow> Inr (Some n)))))"

text \<open>
  The two outputs are the same when the Extractor returns exactly the integer of the SQL
  rule, and no identifier where the SQL rule gives \<^verbatim>\<open>NULL\<close> or gives nothing
  because it fails.
\<close>

definition sameOutput :: "jserror + extractor_state \<Rightarrow> pgerror + int option \<Rightarrow> bool" where
  "sameOutput e q =
     (case e of
        Inl err \<Rightarrow> False
      | Inr st \<Rightarrow> fst st = (case q of Inr (Some n) \<Rightarrow> [Num n] | _ \<Rightarrow> []))"

section \<open>The target table of the specification\<close>


section \<open>Properties of the Extractor\<close>

lemmas extractor_eval = js_def extractDeviceKitIds_def splitValues_def delimiters_def
  trim_def isWhiteSpace_def processValue_def tryDecode_def Buffer_from_hex_def hexVal_def
  toString_utf8_def utf16_def utf8Step_def isCont_def second3_def second4_def parseInt_def
  toNumber_def
  stripSign_def stripPrefix_def isDigitIn_def digitVal_def digitsValue_def isNaN_def Let_def

lemma tryDecode_Inr: "\<exists>st'. tryDecode t st = Inr st'"
  by (simp add: tryDecode_def Buffer_from_hex_def Let_def)

lemma tryDecode_ids:
  "tryDecode t st = Inr st' \<Longrightarrow> NaN \<notin> set (fst st) \<Longrightarrow> NaN \<notin> set (fst st')"
  by (auto simp: tryDecode_def Buffer_from_hex_def Let_def isNaN_def split: if_splits)

lemma processValue_no_NaN:
  assumes "NaN \<notin> set (fst st)"
  shows "NaN \<notin> set (fst (processValue st v))"
proof -
  obtain st' where st': "tryDecode (trim v) st = Inr st'"
    using tryDecode_Inr by blast
  then have "NaN \<notin> set (fst st')"
    using assms by (rule tryDecode_ids)
  then show ?thesis
    using assms st' by (simp add: processValue_def Let_def)
qed

lemma foldl_processValue_no_NaN:
  "NaN \<notin> set (fst st) \<Longrightarrow> NaN \<notin> set (fst (foldl processValue st vs))"
  by (induction vs arbitrary: st) (simp_all add: processValue_no_NaN)

text \<open>
  Claim C10. \<^verbatim>\<open>extractDeviceKitIds\<close> is total on \<^verbatim>\<open>undefined\<close>, \<^verbatim>\<open>null\<close>
  and every string: it never throws, it returns an array, and no element of the array
  is \<^verbatim>\<open>NaN\<close>.
\<close>

theorem extractDeviceKitIds_total:
  "\<exists>ids out. extractDeviceKitIds v = Inr (ids, out) \<and> NaN \<notin> set ids"
proof (cases v)
  case (Str s)
  show ?thesis
  proof (cases "s = []")
    case True
    with Str show ?thesis by (simp add: extractDeviceKitIds_def)
  next
    case False
    let ?r = "foldl processValue ([], []) (splitValues delimiters [trim s])"
    have "extractDeviceKitIds v = Inr (fst ?r, snd ?r)"
      using Str False by (simp add: extractDeviceKitIds_def)
    moreover have "NaN \<notin> set (fst ?r)"
      by (rule foldl_processValue_no_NaN) simp
    ultimately show ?thesis by blast
  qed
qed (simp_all add: extractDeviceKitIds_def)

theorem extractDeviceKitIds_total_witness:
  "\<exists>ids out. extractDeviceKitIds (Str (js ''not hex, +1; 612e37'')) = Inr (ids, out)
     \<and> NaN \<notin> set ids"
  by (rule extractDeviceKitIds_total)

text \<open>
  The loop adds to what it has: the identifiers and the console lines of a token do not
  depend on the tokens before it.
\<close>

lemma processValue_append:
  "processValue st v = (fst st @ tokenIds v, snd st @ tokenLines v)"
  by (cases st)
     (simp add: tokenIds_def tokenLines_def processValue_def tryDecode_def
        Buffer_from_hex_def Let_def)

lemma foldl_processValue:
  "foldl processValue st vs =
     (fst st @ concat (map tokenIds vs), snd st @ concat (map tokenLines vs))"
proof (induction vs arbitrary: st)
  case Nil
  show ?case by simp
next
  case (Cons v vs)
  show ?case
    by (simp add: Cons.IH [of "processValue st v"]) (simp add: processValue_append)
qed

lemma plus_tokenIds: "startsWith (trim v) 43 \<Longrightarrow> tokenIds v = []"
  by (cases "trim v") (simp_all add: tokenIds_def processValue_def Let_def)

lemma plus_tokenLines: "startsWith (trim v) 43 \<Longrightarrow> tokenLines v = [SkippingPlus (trim v)]"
  by (cases "trim v") (simp_all add: tokenLines_def processValue_def Let_def)

text \<open>
  Claim C8. A token that begins with \<^verbatim>\<open>+\<close> after trimming is skipped: the round of
  the loop leaves the identifiers as they are and reports the skip, and the identifiers
  the Extractor returns for a field with such a token are those of the other tokens,
  whatever follows the \<^verbatim>\<open>+\<close>.
\<close>

theorem plus_token_skipped:
  assumes "startsWith (trim tok) 43"
    and "s \<noteq> []"
    and "splitValues delimiters [trim s] = before @ tok # after"
  shows "processValue (ids, out) tok = (ids, out @ [SkippingPlus (trim tok)])
       \<and> (\<exists>ids' out'. extractDeviceKitIds (Str s) = Inr (ids', out')
            \<and> ids' = fst (foldl processValue ([], []) (before @ after))
            \<and> SkippingPlus (trim tok) \<in> set out')"
proof -
  have one: "processValue (ids, out) tok = (ids, out @ [SkippingPlus (trim tok)])"
    using assms(1) by (simp add: processValue_append plus_tokenIds plus_tokenLines)
  let ?r = "foldl processValue ([], []) (before @ tok # after)"
  have ex: "extractDeviceKitIds (Str s) = Inr (fst ?r, snd ?r)"
    using assms(2,3) by (simp add: extractDeviceKitIds_def)
  have "fst ?r = fst (foldl processValue ([], []) (before @ after))"
    and "SkippingPlus (trim tok) \<in> set (snd ?r)"
    unfolding foldl_processValue
    using assms(1) by (simp_all add: plus_tokenIds plus_tokenLines)
  with one ex show ?thesis by blast
qed

theorem plus_token_skipped_witness:
  "startsWith (trim (js '' +4865'')) 43
   \<and> extractDeviceKitIds (Str (js ''612e3432, +4865;612e37'')) =
       Inr ([Num 42, Num 7],
            [Extracted (Num 42) (js ''612e3432'') (js ''a.42''),
             SkippingPlus (js ''+4865''),
             Extracted (Num 7) (js ''612e37'') (js ''a.7'')])"
proof -
  have h1: "startsWith (trim (js '' +4865'')) 43"
    by (simp add: extractor_eval)
  have h2: "js ''612e3432, +4865;612e37'' \<noteq> []"
    by (simp add: js_def)
  have h3: "splitValues delimiters [trim (js ''612e3432, +4865;612e37'')]
              = [js ''612e3432''] @ js '' +4865'' # [js ''612e37'']"
    by (simp add: extractor_eval)
  from plus_token_skipped [OF h1 h2 h3] h1 show ?thesis
    by (simp add: extractor_eval)
qed

text \<open>
  Claim C2. \<^verbatim>\<open>Buffer.from(token, 'hex')\<close> does not throw on a token that is not
  hexadecimal, and \<^verbatim>\<open>toString('utf8')\<close> does not throw on bytes that are not UTF-8:
  the first keeps the bytes before the first bad pair, the second puts U+FFFD. So the
  token \<^verbatim>\<open>612e3432zz\<close> is not skipped but yields 42, and so does \<^verbatim>\<open>ff2e3432\<close>;
  nothing is reported.
\<close>

theorem invalid_hex_token_yields_identifier:
  "extractDeviceKitIds (Str (js ''612e3432zz'')) =
     Inr ([Num 42], [Extracted (Num 42) (js ''612e3432zz'') (js ''a.42'')])
   \<and> extractDeviceKitIds (Str (js ''ff2e3432'')) =
     Inr ([Num 42], [Extracted (Num 42) (js ''ff2e3432'') (0xFFFD # js ''.42'')])"
  by (simp add: extractor_eval)

text \<open>The warning of the \<^verbatim>\<open>catch\<close> block is never printed.\<close>

lemma no_decoding_error_reported:
  "extractDeviceKitIds v = Inr (ids, out) \<Longrightarrow> ErrorDecoding t e \<notin> set out"
proof -
  have one: "ErrorDecoding t e \<notin> set (tokenLines x)" for x
    by (simp add: tokenLines_def processValue_def tryDecode_def Buffer_from_hex_def Let_def)
  have all: "ErrorDecoding t e \<notin> set (snd (foldl processValue ([], []) vs))" for vs
    unfolding foldl_processValue by (simp add: one)
  assume ex: "extractDeviceKitIds v = Inr (ids, out)"
  show "ErrorDecoding t e \<notin> set out"
  proof (cases "falsy v")
    case True
    with ex show ?thesis by (simp add: extractDeviceKitIds_def)
  next
    case False
    then obtain s where v: "v = Str s" "s \<noteq> []" by (cases v) auto
    with ex have "out = snd (foldl processValue ([], []) (splitValues delimiters [trim s]))"
      by (simp add: extractDeviceKitIds_def)
    with all show ?thesis by simp
  qed
qed

subsection \<open>The cascading split\<close>

lemma splitBy_nonempty: "splitBy P s \<noteq> []"
  by (induction s) (auto split: list.splits)

lemma js_split_splitBy: "js_split d s = splitBy (\<lambda>c. c = d) s"
  by (induction s) simp_all

lemma splitBy_none: "\<forall>c \<in> set s. \<not> P c \<Longrightarrow> splitBy P s = [s]"
  by (induction s) simp_all

lemma splitBy_append:
  "\<forall>c \<in> set t. \<not> P c \<Longrightarrow> P d \<Longrightarrow> splitBy P (t @ d # xs) = t # splitBy P xs"
  by (induction t) simp_all

lemma splitBy_cascade:
  "concat (map (splitBy (\<lambda>c. c = d)) (splitBy P s)) = splitBy (\<lambda>c. P c \<or> c = d) s"
proof (induction s)
  case Nil
  show ?case by simp
next
  case (Cons c cs)
  obtain p ps where pps: "splitBy P cs = p # ps"
    using splitBy_nonempty [of P cs] by (cases "splitBy P cs") auto
  obtain q qs where qqs: "splitBy (\<lambda>c. c = d) p = q # qs"
    using splitBy_nonempty [of "\<lambda>c. c = d" p] by (cases "splitBy (\<lambda>c. c = d) p") auto
  have ih: "splitBy (\<lambda>c. P c \<or> c = d) cs = q # qs @ concat (map (splitBy (\<lambda>c. c = d)) ps)"
    using Cons pps qqs by simp
  show ?case
    by (simp add: pps qqs ih)
qed

lemma splitValues_splitBy:
  "foldl (\<lambda>vs d. concat (map (js_split d) vs)) (splitBy P s) ds
     = splitBy (\<lambda>c. P c \<or> c \<in> set ds) s"
proof (induction ds arbitrary: P)
  case Nil
  show ?case by simp
next
  case (Cons d ds)
  have "(\<lambda>c. (P c \<or> c = d) \<or> c \<in> set ds) = (\<lambda>c. P c \<or> c \<in> set (d # ds))"
    by auto
  then show ?case
    using Cons [of "\<lambda>c. P c \<or> c = d"]
    by (simp add: js_split_splitBy splitBy_cascade)
qed

lemma splitValues_single: "splitValues ds [s] = splitBy (\<lambda>c. c \<in> set ds) s"
proof -
  have "[s] = splitBy (\<lambda>c. False) s"
    by (simp add: splitBy_none)
  then show ?thesis
    unfolding splitValues_def using splitValues_splitBy [of "\<lambda>c. False" s ds] by simp
qed

lemma splitBy_joinTokens:
  assumes "\<forall>c \<in> set t. \<not> P c"
    and "\<forall>(d, t') \<in> set rest. P d \<and> (\<forall>c \<in> set t'. \<not> P c)"
  shows "splitBy P (joinTokens t rest) = t # map snd rest"
  using assms
proof (induction rest arbitrary: t)
  case Nil
  then show ?case by (simp add: joinTokens_def splitBy_none)
next
  case (Cons a rest)
  obtain d t' where a: "a = (d, t')" by (cases a)
  have "splitBy P (joinTokens t' rest) = t' # map snd rest"
    using Cons.prems a by (intro Cons.IH) auto
  moreover have "joinTokens t (a # rest) = t @ d # joinTokens t' rest"
    by (simp add: joinTokens_def a)
  ultimately show ?case
    using Cons.prems a by (simp add: splitBy_append)
qed

lemma hex_not_space: "hexVal c = Some y \<Longrightarrow> \<not> isWhiteSpace c"
  by (auto simp: hexVal_def isWhiteSpace_def split: if_splits)

lemma hex_not_delimiter: "hexVal c = Some y \<Longrightarrow> c \<notin> set delimiters"
  by (auto simp: hexVal_def delimiters_def split: if_splits)

lemma trim_id:
  assumes "s \<noteq> []" "\<not> isWhiteSpace (hd s)" "\<not> isWhiteSpace (last s)"
  shows "trim s = s"
proof -
  have "dropWhile isWhiteSpace s = s"
    using assms by (cases s) simp_all
  moreover have "dropWhile isWhiteSpace (rev s) = rev s"
    using assms by (cases "rev s") (simp_all add: hd_rev)
  ultimately show ?thesis by (simp add: trim_def)
qed

lemma validToken_nonempty: "validToken t \<Longrightarrow> t \<noteq> []"
  by (auto simp: validToken_def decodeToken_def toString_utf8_def)

lemma validToken_trim: "validToken t \<Longrightarrow> trim t = t"
proof -
  assume v: "validToken t"
  then have ne: "t \<noteq> []" by (rule validToken_nonempty)
  then have "hd t \<in> set t" "last t \<in> set t" by simp_all
  with v have "\<not> isWhiteSpace (hd t)" "\<not> isWhiteSpace (last t)"
    by (auto simp: validToken_def dest: hex_not_space)
  with ne show ?thesis by (rule trim_id)
qed

lemma validToken_not_plus: "validToken t \<Longrightarrow> \<not> startsWith t 43"
  by (cases t) (auto simp: validToken_def hexVal_def split: if_splits)

lemma tryDecode_decodeToken:
  "tryDecode t st =
     (if decodeToken t = NaN then Inr st
      else Inr (fst st @ [decodeToken t],
                snd st @ [Extracted (decodeToken t) t (toString_utf8 (hexDecode t))]))"
  by (simp add: tryDecode_def decodeToken_def Buffer_from_hex_def Let_def isNaN_def)

lemma validToken_process:
  assumes "validToken t"
  shows "processValue st t =
     (fst st @ [decodeToken t],
      snd st @ [Extracted (decodeToken t) t (toString_utf8 (hexDecode t))])"
proof -
  have "decodeToken t \<noteq> NaN"
    using assms by (simp add: validToken_def)
  then show ?thesis
    using validToken_nonempty [OF assms] validToken_not_plus [OF assms]
    by (simp add: processValue_def validToken_trim [OF assms] tryDecode_decodeToken)
qed

lemma foldl_valid:
  "\<forall>t \<in> set ts. validToken t \<Longrightarrow>
   foldl processValue st ts =
     (fst st @ map decodeToken ts,
      snd st @ map (\<lambda>t. Extracted (decodeToken t) t (toString_utf8 (hexDecode t))) ts)"
  by (induction ts arbitrary: st) (simp_all add: validToken_process)

lemma joinTokens_trim:
  assumes "validToken t" and "\<forall>(d, t') \<in> set rest. validToken t'"
  shows "trim (joinTokens t rest) = joinTokens t rest"
proof (rule trim_id)
  show ne: "joinTokens t rest \<noteq> []"
    using validToken_nonempty [OF assms(1)] by (simp add: joinTokens_def)
  have "hd (joinTokens t rest) = hd t"
    using validToken_nonempty [OF assms(1)] by (simp add: joinTokens_def)
  moreover have "hd t \<in> set t"
    using validToken_nonempty [OF assms(1)] by simp
  ultimately show "\<not> isWhiteSpace (hd (joinTokens t rest))"
    using assms(1) by (auto simp: validToken_def dest: hex_not_space)
  show "\<not> isWhiteSpace (last (joinTokens t rest))"
  proof (cases rest rule: rev_cases)
    case Nil
    have "last t \<in> set t" using validToken_nonempty [OF assms(1)] by simp
    with Nil assms(1) show ?thesis
      by (auto simp: joinTokens_def validToken_def dest: hex_not_space)
  next
    case (snoc rest' a)
    obtain d t' where a: "a = (d, t')" by (cases a)
    then have v: "validToken t'" using assms(2) snoc by auto
    then have "t' \<noteq> []" by (rule validToken_nonempty)
    then have "last (joinTokens t rest) = last t'" "last t' \<in> set t'"
      by (simp_all add: joinTokens_def snoc a)
    with v show ?thesis
      by (auto simp: validToken_def dest: hex_not_space)
  qed
qed

text \<open>
  Claim C9. A field of valid hex-encoded tokens separated by any of the delimiters is
  split into exactly these tokens, in order, and the Extractor returns the integer of
  each token, in order, one per token (a token that occurs twice gives its integer
  twice); an empty or absent field gives the empty result.
\<close>

theorem valid_tokens_in_order:
  assumes "validToken t"
    and "\<forall>(d, t') \<in> set rest. d \<in> set delimiters \<and> validToken t'"
  shows "splitValues delimiters [trim (joinTokens t rest)] = t # map snd rest
       \<and> extractDeviceKitIds (Str (joinTokens t rest))
           = Inr (map decodeToken (t # map snd rest),
                  map (\<lambda>t. Extracted (decodeToken t) t (toString_utf8 (hexDecode t)))
                    (t # map snd rest))
       \<and> NaN \<notin> set (map decodeToken (t # map snd rest))
       \<and> extractDeviceKitIds (Str []) = Inr ([], [])
       \<and> extractDeviceKitIds Undefined = Inr ([], [])
       \<and> extractDeviceKitIds Null = Inr ([], [])"
proof -
  let ?s = "joinTokens t rest"
  have tr: "trim ?s = ?s"
    using assms by (intro joinTokens_trim) auto
  have "\<forall>c \<in> set t. \<not> c \<in> set delimiters"
    using assms(1) by (auto simp: validToken_def dest: hex_not_delimiter)
  moreover have "\<forall>(d, t') \<in> set rest. d \<in> set delimiters \<and> (\<forall>c \<in> set t'. \<not> c \<in> set delimiters)"
    using assms(2) by (fastforce simp: validToken_def dest: hex_not_delimiter)
  ultimately have sp: "splitValues delimiters [trim ?s] = t # map snd rest"
    by (simp add: tr splitValues_single splitBy_joinTokens)
  have all: "\<forall>x \<in> set (t # map snd rest). validToken x"
    using assms by auto
  have ne: "?s \<noteq> []"
    using validToken_nonempty [OF assms(1)] by (simp add: joinTokens_def)
  have ex: "extractDeviceKitIds (Str ?s)
           = Inr (map decodeToken (t # map snd rest),
                  map (\<lambda>t. Extracted (decodeToken t) t (toString_utf8 (hexDecode t)))
                    (t # map snd rest))"
    using ne by (simp add: extractDeviceKitIds_def sp foldl_valid [OF all] del: foldl.simps)
  have "NaN \<notin> set (map decodeToken (t # map snd rest))"
    using all by (auto simp: validToken_def)
  with sp ex show ?thesis
    by (simp add: extractDeviceKitIds_def)
qed

theorem valid_tokens_in_order_witness:
  "validToken (js ''48656c6c6f2e343432'') \<and> validToken (js ''612E37'')
   \<and> validToken (js ''612e2d35'') \<and> 44 \<in> set delimiters \<and> 10 \<in> set delimiters
   \<and> 124 \<in> set delimiters
   \<and> extractDeviceKitIds
       (Str (js ''48656c6c6f2e343432,612E37'' @ 10 # js ''48656c6c6f2e343432|612e2d35'')) =
       Inr ([Num 442, Num 7, Num 442, Num (- 5)],
            [Extracted (Num 442) (js ''48656c6c6f2e343432'') (js ''Hello.442''),
             Extracted (Num 7) (js ''612E37'') (js ''a.7''),
             Extracted (Num 442) (js ''48656c6c6f2e343432'') (js ''Hello.442''),
             Extracted (Num (- 5)) (js ''612e2d35'') (js ''a.-5'')])"
proof -
  have h1: "validToken (js ''48656c6c6f2e343432'')"
    by (simp add: validToken_def decodeToken_def extractor_eval)
  have h2: "\<forall>(d, t') \<in> set [(44, js ''612E37''), (10, js ''48656c6c6f2e343432''), (124, js ''612e2d35'')].
         d \<in> set delimiters \<and> validToken t'"
    by (simp add: validToken_def decodeToken_def extractor_eval)
  from valid_tokens_in_order [OF h1 h2] h1 h2 show ?thesis
    by (simp add: joinTokens_def decodeToken_def extractor_eval)
qed

section \<open>The Extractor and the SQL rule\<close>

subsection \<open>Decoding and splitting commute\<close>

lemma utf8Step_bounds:
  "utf8Step b0 bs = (cp, n) \<Longrightarrow> n \<le> length bs \<and> (cp = b0 \<and> b0 < 128 \<or> 128 \<le> cp)"
  by (auto simp: utf8Step_def isCont_def second3_def second4_def
      split: if_splits list.splits)

lemma utf8Step_ascii_after:
  "c < 128 \<Longrightarrow> utf8Step b0 (bs @ c # t) = utf8Step b0 bs"
  by (auto simp: utf8Step_def isCont_def second3_def second4_def append_eq_Cons_conv
      split: list.splits)

lemma utf8Decode_ascii_mid:
  "c < 128 \<Longrightarrow> utf8Decode (a @ c # t) = utf8Decode a @ c # utf8Decode t"
proof (induction a rule: utf8Decode.induct)
  case 1
  then show ?case by (simp add: utf8Step_def)
next
  case (2 b0 bs)
  obtain cp n where st: "utf8Step b0 bs = (cp, n)"
    by (cases "utf8Step b0 bs")
  then have n: "n \<le> length bs"
    using utf8Step_bounds by blast
  have "utf8Decode (drop n bs @ c # t) = utf8Decode (drop n bs) @ c # utf8Decode t"
    using "2.IH" [OF st [symmetric] "2.prems"] .
  then show ?case
    using "2.prems" n by (simp add: utf8Step_ascii_after st)
qed

lemma utf8Decode_elems:
  "x \<in> set (utf8Decode a) \<Longrightarrow> x \<in> set a \<or> 128 \<le> x"
proof (induction a rule: utf8Decode.induct)
  case 1
  then show ?case by simp
next
  case (2 b0 bs)
  obtain cp n where st: "utf8Step b0 bs = (cp, n)"
    by (cases "utf8Step b0 bs")
  from 2 st have "x = cp \<or> x \<in> set (utf8Decode (drop n bs))"
    by simp
  then show ?case
  proof
    assume "x = cp"
    with utf8Step_bounds [OF st] show ?thesis by auto
  next
    assume "x \<in> set (utf8Decode (drop n bs))"
    then have "x \<in> set (drop n bs) \<or> 128 \<le> x"
      using "2.IH" [OF st [symmetric]] by simp
    then show ?thesis
      by (auto dest: in_set_dropD)
  qed
qed

lemma utf8Decode_ascii: "\<forall>c \<in> set f. c < 128 \<Longrightarrow> utf8Decode f = f"
  by (induction f) (simp_all add: utf8Step_def)

lemma toString_utf8_ascii: "\<forall>c \<in> set f. c < 128 \<Longrightarrow> toString_utf8 f = f"
proof -
  assume a: "\<forall>c \<in> set f. c < 128"
  then have "concat (map utf16 f) = f"
    by (induction f) (simp_all add: utf16_def)
  with a show ?thesis
    by (simp add: toString_utf8_def utf8Decode_ascii)
qed

lemma toString_utf8_mid:
  "c < 128 \<Longrightarrow> toString_utf8 (a @ c # t) = toString_utf8 a @ c # toString_utf8 t"
  by (simp add: toString_utf8_def utf8Decode_ascii_mid utf16_def)

lemma toString_utf8_no_dot: "46 \<notin> set a \<Longrightarrow> 46 \<notin> set (toString_utf8 a)"
proof
  assume a: "46 \<notin> set a" and "46 \<in> set (toString_utf8 a)"
  then obtain cp where cp: "cp \<in> set (utf8Decode a)" "46 \<in> set (utf16 cp)"
    by (auto simp: toString_utf8_def)
  from cp(2) have "cp = 46"
    by (auto simp: utf16_def split: if_splits)
  with cp(1) a utf8Decode_elems [of cp a] show False by auto
qed

lemma js_split_no_sep: "d \<notin> set s \<Longrightarrow> js_split d s = [s]"
  by (induction s) auto

lemma js_split_first: "d \<notin> set a \<Longrightarrow> js_split d (a @ d # t) = a # js_split d t"
  by (induction a) auto

lemma js_split_toString_utf8:
  "js_split 46 (toString_utf8 bs) = map toString_utf8 (js_split 46 bs)"
proof (induction "length bs" arbitrary: bs rule: less_induct)
  case less
  show ?case
  proof (cases "46 \<in> set bs")
    case False
    then show ?thesis
      by (simp add: js_split_no_sep toString_utf8_no_dot)
  next
    case True
    then obtain a t where bs: "bs = a @ 46 # t" "46 \<notin> set a"
      by (auto dest: split_list_first)
    then have "length t < length bs" by simp
    then have "js_split 46 (toString_utf8 t) = map toString_utf8 (js_split 46 t)"
      by (rule less)
    then show ?thesis
      using bs(2)
      by (simp add: bs(1) toString_utf8_mid js_split_first toString_utf8_no_dot)
  qed
qed

lemma pg_split_part_2:
  "pg_split_part b 46 2 =
     (if 1 < length (js_split 46 b) then js_split 46 b ! 1 else [])"
proof (cases "46 \<in> set b")
  case False
  then have dw0: "dropWhile (\<lambda>c. c \<noteq> 46) b = []"
    by auto
  show ?thesis
    by (simp add: pg_split_part.simps dw0 js_split_no_sep [OF False])
next
  case True
  then obtain a t where b: "b = a @ 46 # t" "46 \<notin> set a"
    by (auto dest: split_list_first)
  then have dw: "dropWhile (\<lambda>c. c \<noteq> 46) b = 46 # t"
    by (auto simp: dropWhile_append3)
  have tw: "\<exists>ps. js_split 46 t = takeWhile (\<lambda>c. c \<noteq> 46) t # ps" for t :: "nat list"
    by (induction t) auto
  have "pg_split_part b 46 2 = takeWhile (\<lambda>c. c \<noteq> 46) t"
    by (simp add: pg_split_part.simps [of b] pg_split_part.simps [of t] dw)
  moreover have "js_split 46 b = a # js_split 46 t"
    using b by (simp add: js_split_first)
  ultimately show ?thesis
    using tw [of t] by auto
qed

subsection \<open>Where the PostgreSQL functions succeed, the JavaScript ones agree\<close>

lemma hexVal_low_byte: "hexVal x = Some v \<Longrightarrow> hexVal (x mod 256) = Some v"
proof -
  assume h: "hexVal x = Some v"
  then have "x < 256"
    by (auto simp: hexVal_def split: if_splits)
  with h show ?thesis by simp
qed

lemma pg_hex_decode_hexDecode:
  "pg_hex_decode s = Inr b \<Longrightarrow> \<forall>c \<in> set s. \<not> isWhiteSpace c \<Longrightarrow> hexDecode s = b"
proof (induction s arbitrary: b rule: hexDecode.induct)
  case (1 x y rest)
  have nx: "\<not> (x = 32 \<or> x = 10 \<or> x = 9 \<or> x = 13)"
    using "1.prems"(2) by (auto simp: isWhiteSpace_def)
  from "1.prems"(1) nx obtain v1 v2 bs where
    v: "hexVal x = Some v1" "hexVal y = Some v2" "pg_hex_decode rest = Inr bs"
      "b = (v1 * 16 + v2) # bs"
    by (auto split: option.splits sum.splits)
  have low: "hexVal (x mod 256) = Some v1" "hexVal (y mod 256) = Some v2"
    using v(1,2) by (simp_all add: hexVal_low_byte)
  have "hexDecode rest = bs"
    using "1.IH" [OF low v(3)] "1.prems"(2) by simp
  with v low show ?case by simp
next
  case (2 x)
  have nx: "\<not> (x = 32 \<or> x = 10 \<or> x = 9 \<or> x = 13)"
    using "2.prems"(2) by (auto simp: isWhiteSpace_def)
  with "2.prems"(1) show ?case
    by (auto split: option.splits)
next
  case 3
  then show ?case by simp
qed

lemma pg_isspace_isWhiteSpace: "pg_isspace c \<Longrightarrow> isWhiteSpace c"
  unfolding pg_isspace_def isWhiteSpace_def by arith

lemma isDigitIn_10: "isDigitIn 10 = pg_isdigit"
  by (rule ext) (auto simp: isDigitIn_def digitVal_def pg_isdigit_def Let_def)

lemma digitsValue_10:
  "\<forall>c \<in> set ds. pg_isdigit c \<Longrightarrow>
   foldl (\<lambda>acc c. acc * 10 + (case digitVal 10 c of Some d \<Rightarrow> d | None \<Rightarrow> 0)) a ds
   = foldl (\<lambda>acc c. acc * 10 + (c - 48)) a ds"
  by (induction ds arbitrary: a) (auto simp: digitVal_def pg_isdigit_def Let_def)

lemma pg_int4in_parseInt:
  assumes "pg_int4in f = Inr n"
  shows "parseInt f = Num n \<and> (\<forall>c \<in> set f. c < 128)
       \<and> (\<forall>c \<in> set f. pg_isspace c \<or> c = 45 \<or> c = 43 \<or> pg_isdigit c)"
proof -
  define s1 where "s1 = dropWhile pg_isspace f"
  define neg where "neg = (case s1 of [] \<Rightarrow> False | c # rest \<Rightarrow> c = 45)"
  define s2 where "s2 = (case s1 of [] \<Rightarrow> s1 | c # rest \<Rightarrow> if c = 45 \<or> c = 43 then rest else s1)"
  define ds where "ds = takeWhile pg_isdigit s2"
  define tl where "tl = dropWhile pg_isdigit s2"
  define v where "v = (if neg then - 1 else 1) * int (foldl (\<lambda>acc c. acc * 10 + (c - 48)) 0 ds)"
  have sign: "(case s1 of
                 [] \<Rightarrow> (False, s1)
               | c # rest \<Rightarrow>
                   if c = 45 then (True, rest)
                   else if c = 43 then (False, rest) else (False, s1)) = (neg, s2)"
    by (auto simp: neg_def s2_def split: list.splits)
  have unf: "pg_int4in f =
      (if ds = [] then Inl InvalidIntegerSyntax
       else if v < - 2147483648 \<or> 2147483647 < v then Inl IntegerOutOfRange
       else if dropWhile pg_isspace tl \<noteq> [] then Inl InvalidIntegerSyntax
       else Inr v)"
    unfolding pg_int4in_def Let_def s1_def [symmetric] sign
    by (simp add: ds_def tl_def v_def)
  from assms unf have ds: "ds \<noteq> []" and tl: "dropWhile pg_isspace tl = []" and n: "n = v"
    and range: "- 2147483648 \<le> v" "v \<le> 2147483647"
    by (auto split: if_splits)
  have s2: "s2 = ds @ tl"
    by (simp add: ds_def tl_def)
  have dsd: "\<forall>c \<in> set ds. pg_isdigit c"
    unfolding ds_def by (auto dest: set_takeWhileD)
  have tls: "\<forall>c \<in> set tl. pg_isspace c"
    using tl by simp
  obtain d ds' where dsc: "ds = d # ds'"
    using ds by (cases ds) auto
  have d: "pg_isdigit d"
    using dsd dsc by simp
  have s2c: "s2 = d # ds' @ tl"
    by (simp add: s2 dsc)
  have s1ne: "s1 \<noteq> []"
    using s2c by (auto simp: s2_def split: list.splits)
  have hd1: "\<not> isWhiteSpace (hd s1)"
  proof (cases s1)
    case Nil
    with s1ne show ?thesis by simp
  next
    case (Cons c rest)
    show ?thesis
    proof (cases "c = 45 \<or> c = 43")
      case True
      with Cons show ?thesis by (auto simp: isWhiteSpace_def)
    next
      case False
      with Cons s2c have "c = d" by (simp add: s2_def)
      with d Cons show ?thesis by (auto simp: isWhiteSpace_def pg_isdigit_def)
    qed
  qed
  have f: "f = takeWhile pg_isspace f @ s1"
    by (simp add: s1_def)
  have "dropWhile isWhiteSpace f = dropWhile isWhiteSpace s1"
    by (subst f, rule dropWhile_append2) (auto dest: set_takeWhileD pg_isspace_isWhiteSpace)
  also have "\<dots> = s1"
    using s1ne hd1 by (cases s1) auto
  finally have S: "dropWhile isWhiteSpace f = s1" .
  have sg: "stripSign s1 = (if neg then - 1 else 1, s2)"
    using s1ne by (auto simp: stripSign_def neg_def s2_def split: list.splits)
  have sp: "stripPrefix s2 = (10, s2)"
  proof (cases "ds' @ tl")
    case Nil
    then show ?thesis by (simp add: stripPrefix_def s2c)
  next
    case (Cons b rest)
    then have "b \<in> set ds \<union> set tl"
      by (metis Un_iff dsc list.set_intros(1,2) set_append)
    with dsd tls have "pg_isdigit b \<or> pg_isspace b" by auto
    then have "b \<noteq> 120 \<and> b \<noteq> 88"
      by (auto simp: pg_isdigit_def pg_isspace_def)
    with Cons show ?thesis by (simp add: stripPrefix_def s2c)
  qed
  have tk: "takeWhile (isDigitIn 10) s2 = ds"
    by (simp add: isDigitIn_10 ds_def)
  have val: "digitsValue 10 ds = foldl (\<lambda>acc c. acc * 10 + (c - 48)) 0 ds"
    unfolding digitsValue_def using dsd by (rule digitsValue_10)
  have "parseInt f = toNumber v"
    by (simp add: parseInt_def S sg sp tk ds val v_def)
  moreover have "toNumber v = Num v"
    using range by (simp add: toNumber_def)
  ultimately have "parseInt f = Num v"
    by simp
  moreover have ch: "\<forall>c \<in> set f. pg_isspace c \<or> c = 45 \<or> c = 43 \<or> pg_isdigit c"
  proof
    fix c assume "c \<in> set f"
    then have "c \<in> set (takeWhile pg_isspace f) \<or> c \<in> set s1"
      by (subst (asm) f) auto
    moreover have "c \<in> set s1 \<Longrightarrow> c = 45 \<or> c = 43 \<or> c \<in> set s2"
      by (auto simp: s2_def split: list.splits if_splits)
    ultimately show "pg_isspace c \<or> c = 45 \<or> c = 43 \<or> pg_isdigit c"
      using dsd tls by (auto simp: s2 dest: set_takeWhileD)
  qed
  moreover have "\<forall>c \<in> set f. c < 128"
    using ch by (auto simp: pg_isspace_def pg_isdigit_def)
  ultimately show ?thesis by (simp add: n)
qed

lemma trim_decomp:
  "\<exists>l r. s = l @ trim s @ r \<and> (\<forall>c \<in> set l. isWhiteSpace c) \<and> (\<forall>c \<in> set r. isWhiteSpace c)"
proof -
  let ?u = "dropWhile isWhiteSpace s"
  have "?u = rev (takeWhile isWhiteSpace (rev ?u) @ dropWhile isWhiteSpace (rev ?u))"
    by (simp only: takeWhile_dropWhile_id rev_rev_ident)
  then have u: "?u = trim s @ rev (takeWhile isWhiteSpace (rev ?u))"
    by (simp only: rev_append trim_def)
  have "s = takeWhile isWhiteSpace s @ ?u"
    by simp
  with u have "s = takeWhile isWhiteSpace s @ trim s @ rev (takeWhile isWhiteSpace (rev ?u))"
    by simp
  moreover have "\<forall>c \<in> set (takeWhile isWhiteSpace s). isWhiteSpace c"
    by (auto dest: set_takeWhileD)
  moreover have "\<forall>c \<in> set (rev (takeWhile isWhiteSpace (rev ?u))). isWhiteSpace c"
    by (auto dest: set_takeWhileD)
  ultimately show ?thesis by blast
qed

lemma space_not_hex: "isWhiteSpace c \<Longrightarrow> hexVal c = None"
  by (auto simp: isWhiteSpace_def hexVal_def)

lemma pg_hex_decode_blank:
  "\<forall>c \<in> set r. isWhiteSpace c \<Longrightarrow> pg_hex_decode r = Inr b \<Longrightarrow> b = []"
  by (induction r) (auto simp: space_not_hex split: if_splits)

lemma pg_hex_decode_leading:
  "\<forall>c \<in> set l. isWhiteSpace c \<Longrightarrow> pg_hex_decode (l @ t) = Inr b \<Longrightarrow> pg_hex_decode t = Inr b"
  by (induction l) (auto simp: space_not_hex split: if_splits)

lemma pg_hex_decode_token:
  "pg_hex_decode (t @ r) = Inr b \<Longrightarrow> \<forall>c \<in> set t. \<not> isWhiteSpace c \<Longrightarrow>
   \<forall>c \<in> set r. isWhiteSpace c \<Longrightarrow> hexDecode t = b"
proof (induction t arbitrary: b rule: hexDecode.induct)
  case (1 x y rest)
  have nx: "\<not> (x = 32 \<or> x = 10 \<or> x = 9 \<or> x = 13)"
    using "1.prems"(2) by (auto simp: isWhiteSpace_def)
  from "1.prems"(1) nx obtain v1 v2 bs where
    v: "hexVal x = Some v1" "hexVal y = Some v2" "pg_hex_decode (rest @ r) = Inr bs"
      "b = (v1 * 16 + v2) # bs"
    by (auto split: option.splits sum.splits)
  have low: "hexVal (x mod 256) = Some v1" "hexVal (y mod 256) = Some v2"
    using v(1,2) by (simp_all add: hexVal_low_byte)
  have "hexDecode rest = bs"
    using "1.IH" [OF low v(3)] "1.prems"(2,3) by simp
  with v low show ?case by simp
next
  case (2 x)
  have nx: "\<not> (x = 32 \<or> x = 10 \<or> x = 9 \<or> x = 13)"
    using "2.prems"(2) by (auto simp: isWhiteSpace_def)
  show ?case
  proof (cases r)
    case Nil
    with "2.prems"(1) nx show ?thesis by (auto split: option.splits)
  next
    case (Cons c r')
    then have "hexVal c = None"
      using "2.prems"(3) by (simp add: space_not_hex)
    with Cons "2.prems"(1) nx show ?thesis by (auto split: option.splits)
  qed
next
  case 3
  then show ?case
    using pg_hex_decode_blank [of r b] by simp
qed

lemma pg_hex_decode_trim:
  assumes "pg_hex_decode s = Inr b" and "\<forall>c \<in> set (trim s). \<not> isWhiteSpace c"
  shows "hexDecode (trim s) = b"
proof -
  obtain l r where d: "s = l @ trim s @ r" "\<forall>c \<in> set l. isWhiteSpace c"
      "\<forall>c \<in> set r. isWhiteSpace c"
    using trim_decomp by blast
  have "pg_hex_decode (l @ trim s @ r) = Inr b"
    using assms(1) d(1) by simp
  then have "pg_hex_decode (trim s @ r) = Inr b"
    by (rule pg_hex_decode_leading [OF d(2)])
  then show ?thesis
    using assms(2) d(3) by (rule pg_hex_decode_token)
qed

lemma startsWith_trim: "startsWith s 43 \<Longrightarrow> startsWith (trim s) 43"
proof -
  assume "startsWith s 43"
  then obtain rest where s: "s = 43 # rest"
    by (cases s) auto
  have np: "\<not> isWhiteSpace 43"
    by (simp add: isWhiteSpace_def)
  then have d1: "dropWhile isWhiteSpace s = s"
    by (simp add: s)
  have d2: "dropWhile isWhiteSpace [43] = [43]"
    using np by simp
  have "\<exists>xs. dropWhile isWhiteSpace (rev rest @ [43]) = xs @ [43]"
  proof (cases "\<forall>x \<in> set (rev rest). isWhiteSpace x")
    case True
    have "dropWhile isWhiteSpace (rev rest @ [43]) = dropWhile isWhiteSpace [43]"
      unfolding dropWhile_append using True by (rule if_P)
    with d2 show ?thesis by simp
  next
    case False
    have "dropWhile isWhiteSpace (rev rest @ [43]) = dropWhile isWhiteSpace (rev rest) @ [43]"
      unfolding dropWhile_append using False by (rule if_not_P)
    then show ?thesis by blast
  qed
  then obtain xs where "dropWhile isWhiteSpace (rev rest @ [43]) = xs @ [43]" ..
  moreover have "rev s = rev rest @ [43]"
    by (simp add: s)
  ultimately have "trim s = 43 # rev xs"
    unfolding trim_def d1 by simp
  then show ?thesis by simp
qed

lemma single_token_field:
  assumes "\<forall>c \<in> set (trim s). c \<notin> set delimiters \<and> \<not> isWhiteSpace c" and "s \<noteq> []"
  shows "extractDeviceKitIds (Str s) = Inr (processValue ([], []) (trim s))
       \<and> trim (trim s) = trim s"
proof -
  have tr: "trim (trim s) = trim s"
  proof (cases "trim s = []")
    case True
    show ?thesis unfolding True by (simp add: trim_def)
  next
    case False
    then have "hd (trim s) \<in> set (trim s)" "last (trim s) \<in> set (trim s)"
      by simp_all
    then show ?thesis
      using assms(1) False by (intro trim_id) auto
  qed
  have "splitValues delimiters [trim s] = [trim s]"
    using assms(1) by (simp add: splitValues_single splitBy_none)
  then show ?thesis
    using assms(2) tr by (simp add: extractDeviceKitIds_def)
qed

lemma pg_int4in_empty: "pg_int4in [] = Inl InvalidIntegerSyntax"
  by (simp add: pg_int4in_def)

lemma hexDecode_plus: "startsWith t 43 \<Longrightarrow> hexDecode t = []"
  by (cases t rule: hexDecode.cases) (simp_all add: hexVal_def)

lemma decodeToken_no_bytes: "hexDecode t = [] \<Longrightarrow> decodeToken t = NaN"
  by (simp add: decodeToken_def toString_utf8_def)

lemma sql_integer_decodeToken_trim:
  assumes "\<forall>c \<in> set (trim s). \<not> isWhiteSpace c"
    and "sql_extensions (Some s) = Inr (Some n)"
  shows "decodeToken (trim s) = Num n \<and> trim s \<noteq> [] \<and> \<not> startsWith (trim s) 43"
proof -
  from assms(2) obtain b where
    b: "pg_hex_decode s = Inr b" "pg_int4in (pg_split_part b 46 2) = Inr n"
    by (auto simp: sql_extensions_def pg_convert_from_utf8_def
        split: if_splits sum.splits)
  have hx: "hexDecode (trim s) = b"
    using b(1) assms(1) by (rule pg_hex_decode_trim)
  let ?f = "pg_split_part b 46 2"
  have "?f \<noteq> []"
    using b(2) pg_int4in_empty by auto
  then have len: "1 < length (js_split 46 b)" and f: "?f = js_split 46 b ! 1"
    by (auto simp: pg_split_part_2 split: if_splits)
  have pf: "parseInt ?f = Num n" "\<forall>c \<in> set ?f. c < 128"
    using pg_int4in_parseInt [OF b(2)] by simp_all
  have "js_split 46 (toString_utf8 b) ! 1 = toString_utf8 ?f"
    using len by (simp add: js_split_toString_utf8 f)
  also have "\<dots> = ?f"
    using pf(2) by (rule toString_utf8_ascii)
  finally have "js_split 46 (toString_utf8 b) ! 1 = ?f" .
  moreover have "1 < length (js_split 46 (toString_utf8 b))"
    using len by (simp add: js_split_toString_utf8)
  ultimately have dt: "decodeToken (trim s) = Num n"
    using pf(1) by (simp add: decodeToken_def hx)
  have "hexDecode (trim s) \<noteq> []"
    using dt decodeToken_no_bytes [of "trim s"] by auto
  then have "trim s \<noteq> []" "\<not> startsWith (trim s) 43"
    using hexDecode_plus [of "trim s"] by auto
  with dt show ?thesis by simp
qed

lemmas sql_eval = pg_split_part.simps sql_extensions_def pg_convert_from_utf8_def pg_int4in_def
  pg_isspace_def pg_isdigit_def

text \<open>
  Claim C1, as amended. The Extractor and the SQL rule give the same output on an absent
  field and on every field that, once trimmed, is a single token (no delimiter and no
  white space in it) and for which the SQL expression raises no error: no identifier
  where the SQL rule gives \<^verbatim>\<open>NULL\<close> (the empty field, the \<^verbatim>\<open>+\<close> prefix), and
  exactly the integer of the SQL rule otherwise.
\<close>

theorem sql_and_extractor_agree:
  assumes "\<forall>c \<in> set (trim s). c \<notin> set delimiters \<and> \<not> isWhiteSpace c"
    and "sql_extensions (Some s) = Inr v"
  shows "sameOutput (extractDeviceKitIds (Str s)) (sql_extensions (Some s))
       \<and> sameOutput (extractDeviceKitIds Undefined) (sql_extensions None)
       \<and> sameOutput (extractDeviceKitIds Null) (sql_extensions None)"
proof -
  have absent: "sameOutput (extractDeviceKitIds Undefined) (sql_extensions None)"
      "sameOutput (extractDeviceKitIds Null) (sql_extensions None)"
    by (simp_all add: sameOutput_def extractDeviceKitIds_def sql_extensions_def)
  have "sameOutput (extractDeviceKitIds (Str s)) (Inr v)"
  proof (cases "s = []")
    case True
    with assms(2) show ?thesis
      by (auto simp: sameOutput_def extractDeviceKitIds_def sql_extensions_def)
  next
    case False
    from single_token_field [OF assms(1) False]
    have ex: "extractDeviceKitIds (Str s) = Inr (processValue ([], []) (trim s))"
      and tr: "trim (trim s) = trim s"
      by simp_all
    show ?thesis
    proof (cases v)
      case None
      with assms(2) False have "startsWith s 43"
        by (auto simp: sql_extensions_def split: if_splits sum.splits)
      then have "startsWith (trim s) 43"
        by (rule startsWith_trim)
      then have "processValue ([], []) (trim s) = ([], [SkippingPlus (trim s)])"
        by (simp add: processValue_append [of "([], [])"] plus_tokenIds plus_tokenLines tr)
      then show ?thesis
        using None by (simp add: sameOutput_def ex)
    next
      case (Some n)
      have "\<forall>c \<in> set (trim s). \<not> isWhiteSpace c"
        using assms(1) by simp
      from sql_integer_decodeToken_trim [OF this assms(2) [unfolded Some]]
      show ?thesis
        by (simp add: sameOutput_def ex processValue_def tr tryDecode_decodeToken Some Let_def)
    qed
  qed
  with absent assms(2) show ?thesis by simp
qed

theorem sql_and_extractor_agree_witness:
  "sql_extensions (Some (js '' 48656c6c6f2e343432 '')) = Inr (Some 442)
   \<and> extractDeviceKitIds (Str (js '' 48656c6c6f2e343432 '')) =
       Inr ([Num 442],
            [Extracted (Num 442) (js ''48656c6c6f2e343432'') (js ''Hello.442'')])
   \<and> sameOutput (extractDeviceKitIds (Str (js '' 48656c6c6f2e343432 '')))
       (sql_extensions (Some (js '' 48656c6c6f2e343432 '')))"
proof -
  have h1: "\<forall>c \<in> set (trim (js '' 48656c6c6f2e343432 '')).
              c \<notin> set delimiters \<and> \<not> isWhiteSpace c"
    by (simp add: js_def trim_def delimiters_def isWhiteSpace_def)
  have h2: "sql_extensions (Some (js '' 48656c6c6f2e343432 '')) = Inr (Some 442)"
    by (simp add: extractor_eval sql_eval)
  have "extractDeviceKitIds (Str (js '' 48656c6c6f2e343432 '')) =
       Inr ([Num 442],
            [Extracted (Num 442) (js ''48656c6c6f2e343432'') (js ''Hello.442'')])"
    by (simp add: extractor_eval)
  with sql_and_extractor_agree [OF h1 h2] h2 show ?thesis
    by blast
qed

text \<open>
  The claim as stated fails on a field of two tokens, where the Extractor returns two
  identifiers and the SQL expression fails on the comma; on a token with characters
  that are not hexadecimal, where the Extractor returns 42 and the SQL expression fails;
  and on a token with a blank inside, which \<^verbatim>\<open>DECODE\<close> skips and
  \<^verbatim>\<open>Buffer.from\<close> stops at, so that the SQL rule gives 42 and the Extractor
  nothing.
\<close>

theorem sql_and_extractor_disagree:
  "\<not> sameOutput (extractDeviceKitIds (Str (js ''612e31,612e32'')))
       (sql_extensions (Some (js ''612e31,612e32'')))
   \<and> extractDeviceKitIds (Str (js ''612e31,612e32'')) =
       Inr ([Num 1, Num 2],
            [Extracted (Num 1) (js ''612e31'') (js ''a.1''),
             Extracted (Num 2) (js ''612e32'') (js ''a.2'')])
   \<and> sql_extensions (Some (js ''612e31,612e32'')) = Inl InvalidHexDigit
   \<and> \<not> sameOutput (extractDeviceKitIds (Str (js ''612e3432zz'')))
       (sql_extensions (Some (js ''612e3432zz'')))
   \<and> sql_extensions (Some (js ''612e 3432'')) = Inr (Some 42)
   \<and> extractDeviceKitIds (Str (js ''612e 3432'')) = Inr ([], [])"
  by (simp add: sameOutput_def extractor_eval sql_eval)

subsection \<open>Encoded tokens\<close>

text \<open>
  The hexadecimal encoding of a text \<^verbatim>\<open>name.digits\<close>, the name in ASCII and without
  a dot, is a valid token, and its integer is the Number for what the digits denote.
\<close>

lemma hexVal_hexDigit: "v < 16 \<Longrightarrow> hexVal (hexDigit v) = Some v"
  by (simp add: hexVal_def hexDigit_def)

lemma hexVal_hexDigit_low: "v < 16 \<Longrightarrow> hexVal (hexDigit v mod 256) = Some v"
  by (simp add: hexVal_hexDigit hexVal_low_byte)

lemma hexDecode_hexEncode: "\<forall>b \<in> set bs. b < 256 \<Longrightarrow> hexDecode (hexEncode bs) = bs"
proof (induction bs)
  case Nil
  show ?case by (simp add: hexEncode_def)
next
  case (Cons b bs)
  then have "b < 256" by simp
  then have b: "b div 16 < 16" "b mod 16 < 16"
    by arith+
  have "hexEncode (b # bs) = hexDigit (b div 16) # hexDigit (b mod 16) # hexEncode bs"
    by (simp add: hexEncode_def)
  with Cons b show ?case
    by (simp add: hexVal_hexDigit_low)
qed

lemma hexEncode_digits: "\<forall>b \<in> set bs. b < 256 \<Longrightarrow> c \<in> set (hexEncode bs) \<Longrightarrow> hexVal c \<noteq> None"
proof -
  assume a: "\<forall>b \<in> set bs. b < 256" and "c \<in> set (hexEncode bs)"
  then obtain b where "b \<in> set bs" "c = hexDigit (b div 16) \<or> c = hexDigit (b mod 16)"
    by (auto simp: hexEncode_def)
  moreover from this a have "b < 256" by simp
  then have "b div 16 < 16" "b mod 16 < 16"
    by arith+
  ultimately show ?thesis
    by (auto simp: hexVal_hexDigit)
qed

lemma parseInt_digits:
  assumes "ds \<noteq> []" and "\<forall>c \<in> set ds. pg_isdigit c"
  shows "parseInt ds = toNumber (int (foldl (\<lambda>acc c. acc * 10 + (c - 48)) 0 ds))"
proof -
  obtain d ds' where ds: "ds = d # ds'"
    using assms(1) by (cases ds) auto
  have d: "pg_isdigit d"
    using assms(2) ds by simp
  then have S: "dropWhile isWhiteSpace ds = ds"
    by (auto simp: ds isWhiteSpace_def pg_isdigit_def)
  have sg: "stripSign ds = (1, ds)"
    using d by (auto simp: ds stripSign_def pg_isdigit_def)
  have sp: "stripPrefix ds = (10, ds)"
  proof (cases ds')
    case Nil
    then show ?thesis by (simp add: stripPrefix_def ds)
  next
    case (Cons b rest)
    then have "pg_isdigit b" using assms(2) ds by simp
    then have "b \<noteq> 120 \<and> b \<noteq> 88" by (auto simp: pg_isdigit_def)
    with Cons show ?thesis by (simp add: stripPrefix_def ds)
  qed
  have tk: "takeWhile (isDigitIn 10) ds = ds"
    using assms(2) by (simp add: isDigitIn_10 takeWhile_eq_all_conv)
  have val: "digitsValue 10 ds = foldl (\<lambda>acc c. acc * 10 + (c - 48)) 0 ds"
    unfolding digitsValue_def using assms(2) by (rule digitsValue_10)
  show ?thesis
    using assms(1) by (simp add: parseInt_def S sg sp tk val)
qed

lemma toNumber_not_NaN: "toNumber n \<noteq> NaN"
  by (simp add: toNumber_def Let_def)

lemma toNumber_exact: "\<bar>n\<bar> < 9007199254740992 \<Longrightarrow> toNumber n = Num n"
  by (simp add: toNumber_def)

text \<open>
  Beyond \<open>2^53\<close>: a neighbour of a double goes to it, a tie goes to the even
  neighbour, and a number of 310 digits is an infinity.
\<close>

lemma toNumber_rounds:
  "toNumber 9007199254740993 = Num 9007199254740992
   \<and> toNumber 9007199254740995 = Num 9007199254740996
   \<and> toNumber (- 9007199254740993) = Num (- 9007199254740992)
   \<and> toNumber (10 ^ 309) = PosInfinity"
  by (simp add: toNumber_def roundToDouble_def bitLength.simps Let_def)

lemma encoded_token_valid:
  assumes "\<forall>c \<in> set name. c < 128 \<and> c \<noteq> 46"
    and "ds \<noteq> []" and "\<forall>c \<in> set ds. pg_isdigit c"
  shows "validToken (hexEncode (name @ 46 # ds))
       \<and> decodeToken (hexEncode (name @ 46 # ds))
           = toNumber (int (foldl (\<lambda>acc c. acc * 10 + (c - 48)) 0 ds))"
proof -
  let ?text = "name @ 46 # ds"
  have dsa: "\<forall>c \<in> set ds. c < 128 \<and> c \<noteq> 46"
    using assms(3) by (auto simp: pg_isdigit_def)
  then have ascii: "\<forall>c \<in> set ?text. c < 128"
    using assms(1) by auto
  then have small: "\<forall>c \<in> set ?text. c < 256"
    by fastforce
  have hx: "hexDecode (hexEncode ?text) = ?text"
    using small by (rule hexDecode_hexEncode)
  have ts: "toString_utf8 ?text = ?text"
    using ascii by (rule toString_utf8_ascii)
  have "46 \<notin> set name" "46 \<notin> set ds"
    using assms(1) dsa by auto
  then have sp: "js_split 46 ?text = [name, ds]"
    by (simp add: js_split_first js_split_no_sep)
  have dt: "decodeToken (hexEncode ?text)
            = toNumber (int (foldl (\<lambda>acc c. acc * 10 + (c - 48)) 0 ds))"
    by (simp add: decodeToken_def hx ts sp parseInt_digits [OF assms(2,3)])
  moreover have "\<forall>c \<in> set (hexEncode ?text). hexVal c \<noteq> None"
    using hexEncode_digits [OF small] by blast
  ultimately show ?thesis
    by (simp add: validToken_def toNumber_not_NaN)
qed

lemma encoded_token_example: "hexEncode (js ''Hello.442'') = js ''48656c6c6f2e343432''"
  by (simp add: hexEncode_def hexDigit_def js_def)

section \<open>Properties of the Loader\<close>

subsection \<open>Reading the rows\<close>

lemma readStream_Data: "readStream acc (map Data rows) = Inr (acc @ map processRow rows)"
  by (induction rows arbitrary: acc) simp_all

lemma parseInt_no_digit:
  assumes "\<not> isWhiteSpace c" and "c \<noteq> 43" and "c \<noteq> 45" and "\<not> (48 \<le> c \<and> c \<le> 57)"
  shows "parseInt (c # cs) = NaN"
proof -
  have S: "dropWhile isWhiteSpace (c # cs) = c # cs"
    using assms(1) by simp
  have sg: "stripSign (c # cs) = (1, c # cs)"
    using assms(2,3) by (simp add: stripSign_def)
  have c48: "c \<noteq> 48"
    using assms(4) by auto
  have sp: "stripPrefix (c # cs) = (10, c # cs)"
    using c48 by (cases cs) (simp_all add: stripPrefix_def)
  have "\<not> isDigitIn 10 c"
    using assms(4) by (simp add: isDigitIn_10 pg_isdigit_def)
  then have tk: "takeWhile (isDigitIn 10) (c # cs) = []"
    by simp
  show ?thesis
    unfolding parseInt_def S sg by (simp add: sp tk del: takeWhile.simps)
qed

lemma parseInt_undefined: "parseInt (ToString Undefined) = NaN"
  by (simp add: parseInt_def stripSign_def stripPrefix_def isDigitIn_def digitVal_def
      isWhiteSpace_def js_def Let_def)

text \<open>
  Claim C4, as amended. The account identifier of a record is what \<^verbatim>\<open>parseInt\<close>
  makes of the text of the column: for a text of decimal digits the Number for what
  they denote, which is that number itself below \<open>2^53\<close> and the nearest double
  beyond; and \<^verbatim>\<open>NaN\<close> when the text begins with a character that is neither white
  space, a sign nor a digit, or when the column is absent. This is not an error: every
  row the stream delivers becomes a record, in order, and \<^verbatim>\<open>loadCsvData\<close> resolves
  with all of them.
\<close>

theorem loadCsvData_keeps_every_row:
  "loadCsvData (map Data rows) = Inr (map processRow rows)
   \<and> account_id (processRow row) = parseInt (ToString (row_account_id row))
   \<and> (row_account_id row = Str ds \<and> ds \<noteq> [] \<and> (\<forall>c \<in> set ds. 48 \<le> c \<and> c \<le> 57) \<longrightarrow>
        account_id (processRow row)
          = toNumber (int (foldl (\<lambda>acc c. acc * 10 + (c - 48)) 0 ds))
        \<and> account_id (processRow row) \<noteq> NaN
        \<and> (foldl (\<lambda>acc c. acc * 10 + (c - 48)) 0 ds < 9007199254740992 \<longrightarrow>
             account_id (processRow row)
               = Num (int (foldl (\<lambda>acc c. acc * 10 + (c - 48)) 0 ds))))
   \<and> (row_account_id row = Str (c # cs) \<and> \<not> isWhiteSpace c \<and> c \<noteq> 43 \<and> c \<noteq> 45
        \<and> \<not> (48 \<le> c \<and> c \<le> 57) \<longrightarrow>
        account_id (processRow row) = NaN)
   \<and> (row_account_id row = Undefined \<longrightarrow> account_id (processRow row) = NaN)"
proof -
  have a: "account_id (processRow row) = parseInt (ToString (row_account_id row))"
    by (simp add: processRow_def)
  have b: "account_id (processRow row)
             = toNumber (int (foldl (\<lambda>acc c. acc * 10 + (c - 48)) 0 ds))"
    if "row_account_id row = Str ds" "ds \<noteq> []" "\<forall>c \<in> set ds. 48 \<le> c \<and> c \<le> 57"
  proof -
    have "\<forall>c \<in> set ds. pg_isdigit c"
      using that(3) by (simp add: pg_isdigit_def)
    from parseInt_digits [OF that(2) this] that(1) show ?thesis
      by (simp add: a)
  qed
  have b': "toNumber (int (foldl (\<lambda>acc c. acc * 10 + (c - 48)) 0 ds))
             = Num (int (foldl (\<lambda>acc c. acc * 10 + (c - 48)) 0 ds))"
    if "foldl (\<lambda>acc c. acc * 10 + (c - 48)) 0 ds < 9007199254740992"
    using that by (intro toNumber_exact) simp
  have c: "account_id (processRow row) = NaN"
    if "row_account_id row = Str (c # cs)" "\<not> isWhiteSpace c" "c \<noteq> 43" "c \<noteq> 45"
      "\<not> (48 \<le> c \<and> c \<le> 57)"
    using parseInt_no_digit [OF that(2-5), of cs] that(1) by (simp add: a)
  have d: "account_id (processRow row) = NaN" if "row_account_id row = Undefined"
    using that parseInt_undefined by (simp add: a)
  have e: "loadCsvData (map Data rows) = Inr (map processRow rows)"
    by (simp add: loadCsvData_def readStream_Data)
  have f: "account_id (processRow row)
             = toNumber (int (foldl (\<lambda>acc c. acc * 10 + (c - 48)) 0 ds))
           \<and> account_id (processRow row) \<noteq> NaN
           \<and> (foldl (\<lambda>acc c. acc * 10 + (c - 48)) 0 ds < 9007199254740992 \<longrightarrow>
                account_id (processRow row)
                  = Num (int (foldl (\<lambda>acc c. acc * 10 + (c - 48)) 0 ds)))"
    if "row_account_id row = Str ds \<and> ds \<noteq> [] \<and> (\<forall>c \<in> set ds. 48 \<le> c \<and> c \<le> 57)"
  proof -
    from that have eq: "account_id (processRow row)
             = toNumber (int (foldl (\<lambda>acc c. acc * 10 + (c - 48)) 0 ds))"
      by (intro b) simp_all
    show ?thesis
      unfolding eq using b' by (simp add: toNumber_not_NaN)
  qed
  have g: "account_id (processRow row) = NaN"
    if "row_account_id row = Str (c # cs) \<and> \<not> isWhiteSpace c \<and> c \<noteq> 43 \<and> c \<noteq> 45
        \<and> \<not> (48 \<le> c \<and> c \<le> 57)"
    using that by (intro c) simp_all
  from e a f g d show ?thesis
    by (intro conjI impI; blast)
qed

theorem loadCsvData_keeps_every_row_witness:
  "loadCsvData
     [Data \<lparr> row_account_id = Str (js ''850527''), row_emails = Str (js ''a@b.c''),
             row_phone_numbers = Undefined, row_extensions = Str (js ''612e37'') \<rparr>,
      Data \<lparr> row_account_id = Str (js ''n/a''), row_emails = Undefined,
             row_phone_numbers = Undefined, row_extensions = Undefined \<rparr>,
      Data \<lparr> row_account_id = Str (js ''9007199254740993''), row_emails = Undefined,
             row_phone_numbers = Undefined, row_extensions = Undefined \<rparr>]
   = Inr [\<lparr> account_id = Num 850527, emails = Str (js ''a@b.c''), phone_numbers = Str [],
            extensions = Str (js ''612e37''), created_by = Str (js ''By system'') \<rparr>,
          \<lparr> account_id = NaN, emails = Str [], phone_numbers = Str [],
            extensions = Str [], created_by = Str (js ''By system'') \<rparr>,
          \<lparr> account_id = Num 9007199254740992, emails = Str [], phone_numbers = Str [],
            extensions = Str [], created_by = Str (js ''By system'') \<rparr>]"
proof -
  let ?r1 = "\<lparr> row_account_id = Str (js ''850527''), row_emails = Str (js ''a@b.c''),
             row_phone_numbers = Undefined, row_extensions = Str (js ''612e37'') \<rparr>"
  let ?r2 = "\<lparr> row_account_id = Str (js ''n/a''), row_emails = Undefined,
             row_phone_numbers = Undefined, row_extensions = Undefined \<rparr>"
  let ?r3 = "\<lparr> row_account_id = Str (js ''9007199254740993''), row_emails = Undefined,
             row_phone_numbers = Undefined, row_extensions = Undefined \<rparr>"
  have "row_account_id ?r1 = Str (js ''850527'') \<and> js ''850527'' \<noteq> []
        \<and> (\<forall>c \<in> set (js ''850527''). 48 \<le> c \<and> c \<le> 57)
        \<and> foldl (\<lambda>acc c. acc * 10 + (c - 48)) 0 (js ''850527'') < 9007199254740992"
    by (simp add: js_def)
  with loadCsvData_keeps_every_row [of "[]" ?r1 "js ''850527''" 0 "[]"]
  have "account_id (processRow ?r1)
        = Num (int (foldl (\<lambda>acc c. acc * 10 + (c - 48)) 0 (js ''850527'')))"
    by blast
  then have k1: "account_id (processRow ?r1) = Num 850527"
    by (simp add: js_def)
  have "row_account_id ?r2 = Str (110 # js ''/a'') \<and> \<not> isWhiteSpace 110 \<and> (110 :: nat) \<noteq> 43
        \<and> (110 :: nat) \<noteq> 45 \<and> \<not> (48 \<le> (110 :: nat) \<and> (110 :: nat) \<le> 57)"
    by (simp add: js_def isWhiteSpace_def)
  with loadCsvData_keeps_every_row [of "[]" ?r2 "[]" 110 "js ''/a''"]
  have k2: "account_id (processRow ?r2) = NaN"
    by blast
  have "row_account_id ?r3 = Str (js ''9007199254740993'') \<and> js ''9007199254740993'' \<noteq> []
        \<and> (\<forall>c \<in> set (js ''9007199254740993''). 48 \<le> c \<and> c \<le> 57)"
    by (simp add: js_def)
  with loadCsvData_keeps_every_row [of "[]" ?r3 "js ''9007199254740993''" 0 "[]"]
  have "account_id (processRow ?r3)
        = toNumber (int (foldl (\<lambda>acc c. acc * 10 + (c - 48)) 0 (js ''9007199254740993'')))"
    by blast
  also have "\<dots> = toNumber 9007199254740993"
    by (simp add: js_def)
  also have "\<dots> = Num 9007199254740992"
    by (simp add: toNumber_def roundToDouble_def bitLength.simps Let_def)
  finally have k3: "account_id (processRow ?r3) = Num 9007199254740992" .
  have "loadCsvData (map Data [?r1, ?r2, ?r3]) = Inr (map processRow [?r1, ?r2, ?r3])"
    using loadCsvData_keeps_every_row [of "[?r1, ?r2, ?r3]"] by blast
  moreover have "processRow ?r1
      = \<lparr> account_id = Num 850527, emails = Str (js ''a@b.c''), phone_numbers = Str [],
          extensions = Str (js ''612e37''), created_by = Str (js ''By system'') \<rparr>"
    using k1 by (simp add: processRow_def js_or_def)
  moreover have "processRow ?r2
      = \<lparr> account_id = NaN, emails = Str [], phone_numbers = Str [],
          extensions = Str [], created_by = Str (js ''By system'') \<rparr>"
    using k2 by (simp add: processRow_def js_or_def)
  moreover have "processRow ?r3
      = \<lparr> account_id = Num 9007199254740992, emails = Str [], phone_numbers = Str [],
          extensions = Str [], created_by = Str (js ''By system'') \<rparr>"
    using k3 by (simp add: processRow_def js_or_def)
  ultimately show ?thesis by simp
qed

text \<open>
  The claim as stated fails on the row whose account identifier is \<^verbatim>\<open>abc\<close>: there
  is no parse error, and the record is kept with the key \<^verbatim>\<open>NaN\<close>.
\<close>

theorem non_numeric_account_id_is_loaded:
  "loadCsvData
     [Data \<lparr> row_account_id = Str (js ''abc''), row_emails = Str (js ''a@b.c''),
             row_phone_numbers = Undefined, row_extensions = Str (js ''612e37'') \<rparr>]
   = Inr [\<lparr> account_id = NaN, emails = Str (js ''a@b.c''), phone_numbers = Str [],
            extensions = Str (js ''612e37''), created_by = Str (js ''By system'') \<rparr>]"
  by (simp add: loadCsvData_def processRow_def js_or_def parseInt_def stripSign_def
      stripPrefix_def isDigitIn_def digitVal_def isWhiteSpace_def js_def Let_def)

subsection \<open>A refused statement inside the transaction\<close>







lemma insertLoop_counts:
  "successCount (foldl (insertRecord sch now) st rs)
     + errorCount (foldl (insertRecord sch now) st rs)
   = successCount st + errorCount st + length rs"
proof (induction rs arbitrary: st)
  case Nil
  show ?case by simp
next
  case (Cons r rs)
  have "successCount (insertRecord sch now st r) + errorCount (insertRecord sch now st r)
        = successCount st + errorCount st + 1"
    by (simp add: insertRecord_def split: prod.splits option.splits)
  then show ?case using Cons.IH [of "insertRecord sch now st r"] by simp
qed


text \<open>
  Claim C5. Three records of which the last is refused by the table: the run catches the
  failure, counts 2 successes and 1 error and sends \<^verbatim>\<open>COMMIT\<close>, but no row is in
  the table afterwards, where the claim expects two. With the refused record in the
  middle, the record after it is refused as well (the block has failed): 1 success and
  2 errors.
\<close>

theorem per_row_failure_rolls_back:
  "insertDataToDatabase integerKeyTable 7
     [\<lparr> account_id = Num 1, emails = Str (js ''a''), phone_numbers = Str [],
        extensions = Str [], created_by = Str (js ''By system'') \<rparr>,
      \<lparr> account_id = Num 2, emails = Str (js ''b''), phone_numbers = Str [],
        extensions = Str [], created_by = Str (js ''By system'') \<rparr>,
      \<lparr> account_id = NaN, emails = Str (js ''c''), phone_numbers = Str [],
        extensions = Str [], created_by = Str (js ''By system'') \<rparr>]
     \<lparr> committed = [], working = [], status = Idle \<rparr>
   = \<lparr> client = \<lparr> committed = [], working = [], status = Idle \<rparr>,
       successCount = 2, errorCount = 1,
       console = [ErrorInserting NaN RowRejected, SuccessfullyProcessed 2 1] \<rparr>
   \<and> insertDataToDatabase integerKeyTable 7
     [\<lparr> account_id = Num 1, emails = Str (js ''a''), phone_numbers = Str [],
        extensions = Str [], created_by = Str (js ''By system'') \<rparr>,
      \<lparr> account_id = NaN, emails = Str (js ''c''), phone_numbers = Str [],
        extensions = Str [], created_by = Str (js ''By system'') \<rparr>,
      \<lparr> account_id = Num 2, emails = Str (js ''b''), phone_numbers = Str [],
        extensions = Str [], created_by = Str (js ''By system'') \<rparr>]
     \<lparr> committed = [], working = [], status = Idle \<rparr>
   = \<lparr> client = \<lparr> committed = [], working = [], status = Idle \<rparr>,
       successCount = 1, errorCount = 2,
       console = [ErrorInserting NaN RowRejected, ErrorInserting (Num 2) InFailedTransaction,
                  SuccessfullyProcessed 1 2] \<rparr>"
  by (simp add: insertDataToDatabase_def insertRecord_def query_insert_def query_begin_def
      query_commit_def insertError_def integerKeyTable_def insertedRow_def Let_def)

subsection \<open>Batch mode\<close>

lemma insertError_rejected:
  "\<exists>r \<in> set rows. \<not> accepts sch r \<Longrightarrow> \<exists>e. insertError sch rows = Some e"
  by (simp add: insertError_def)

text \<open>
  Claim C6. In batch mode a record the table refuses makes the one statement fail: the
  transaction is rolled back, the table is as it was before the run (no row of the batch
  has been applied), and the error is thrown to the caller.
\<close>

theorem batch_all_or_nothing:
  assumes "\<exists>r \<in> set records. \<not> accepts sch r"
  shows "\<exists>e c'. batchInsertDataToDatabase sch now records c
                 = (Some (DatabaseError e), c', [ErrorDuringBatchInsert e])
             \<and> committed c' = committed c \<and> status c' = Idle"
proof -
  obtain e where "insertError sch records = Some e"
    using insertError_rejected [OF assms] by blast
  then show ?thesis
    by (simp add: batchInsertDataToDatabase_def query_insert_def query_begin_def
        query_rollback_def)
qed

theorem batch_all_or_nothing_witness:
  "\<not> accepts integerKeyTable
        \<lparr> account_id = NaN, emails = Str (js ''c''), phone_numbers = Str [],
          extensions = Str [], created_by = Str (js ''By system'') \<rparr>
   \<and> batchInsertDataToDatabase integerKeyTable 7
       [\<lparr> account_id = Num 1, emails = Str (js ''a''), phone_numbers = Str [],
          extensions = Str [], created_by = Str (js ''By system'') \<rparr>,
        \<lparr> account_id = NaN, emails = Str (js ''c''), phone_numbers = Str [],
          extensions = Str [], created_by = Str (js ''By system'') \<rparr>]
       \<lparr> committed = [], working = [], status = Idle \<rparr>
     = (Some (DatabaseError RowRejected),
        \<lparr> committed = [], working = [], status = Idle \<rparr>,
        [ErrorDuringBatchInsert RowRejected])"
proof -
  let ?bad = "\<lparr> account_id = NaN, emails = Str (js ''c''), phone_numbers = Str [],
          extensions = Str [], created_by = Str (js ''By system'') \<rparr>"
  let ?records = "[\<lparr> account_id = Num 1, emails = Str (js ''a''), phone_numbers = Str [],
          extensions = Str [], created_by = Str (js ''By system'') \<rparr>, ?bad]"
  have h: "\<exists>r \<in> set ?records. \<not> accepts integerKeyTable r"
    by (simp add: integerKeyTable_def)
  from batch_all_or_nothing [OF h, of 7 "\<lparr> committed = [], working = [], status = Idle \<rparr>"]
  show ?thesis
    by (simp add: batchInsertDataToDatabase_def query_insert_def query_begin_def
        query_rollback_def insertError_def integerKeyTable_def)
qed


subsection \<open>Runs in which every record is accepted\<close>




subsection \<open>The upsert\<close>




















subsection \<open>What is stored as the extension\<close>












end
